theory Spec2Isabelle
  imports Main
begin

section \<open>github-review-405: recovery of a stuck pull-request review\<close>

text \<open>
  A shallow embedding of \<^verbatim>\<open>src/main.js\<close> (functions \<^verbatim>\<open>saveComments\<close>, \<^verbatim>\<open>main\<close>,
  \<^verbatim>\<open>run\<close>) and of the class \<^verbatim>\<open>AppError\<close>.

  The program is sequential: every \<^verbatim>\<open>await\<close> is a blocking call to GitHub or to the file
  system. The model threads a \<open>world\<close> (the files on disk and the ordered list of external
  calls made so far) through the code, and takes the answers of GitHub and of the file
  system from an \<open>env\<close> record. Every \<^verbatim>\<open>throw\<close> is a value \<open>Inl e\<close>.

  Not modelled: option parsing and validation (lines 66 to 115 of \<^verbatim>\<open>main\<close>), whose result is
  the record \<open>cfg\<close>; and the progress messages printed with \<^verbatim>\<open>console.log\<close> and
  \<^verbatim>\<open>console.warn\<close> inside \<^verbatim>\<open>main\<close>.
\<close>

subsection \<open>Errors\<close>

text \<open>
  \<^verbatim>\<open>AppError(message, extra)\<close> is the program's own error; \<open>Thrown\<close> is any other exception
  value (an HTTP error of the client library, a file-system error, a \<^verbatim>\<open>TypeError\<close>), with
  its message.
\<close>

datatype error = AppError string "error option" | Thrown string

fun message :: "error \<Rightarrow> string" where
  "message (AppError m x) = m"
| "message (Thrown m) = m"

fun extra :: "error \<Rightarrow> error option" where
  "extra (AppError m x) = x"
| "extra (Thrown m) = None"

fun instanceof_AppError :: "error \<Rightarrow> bool" where
  "instanceof_AppError (AppError m x) = True"
| "instanceof_AppError (Thrown m) = False"

subsection \<open>JavaScript values\<close>

text \<open>
  Truthiness, as \<^verbatim>\<open>if (reviewId)\<close>, \<^verbatim>\<open>!comment.new_id\<close>, \<^verbatim>\<open>!saveFile\<close> and
  \<^verbatim>\<open>opt.options.load\<close> test it: \<^verbatim>\<open>undefined\<close>, the number 0 and the empty string are falsy.
  Each function returns the value when it is truthy, and \<open>None\<close> when it is falsy.
\<close>

fun truthy_num :: "nat option \<Rightarrow> nat option" where
  "truthy_num None = None"
| "truthy_num (Some n) = (if n = 0 then None else Some n)"

fun truthy_str :: "string option \<Rightarrow> string option" where
  "truthy_str None = None"
| "truthy_str (Some s) = (if s = [] then None else Some s)"

text \<open>A template literal \<^verbatim>\<open>${n}\<close> of a natural number: its decimal digits.\<close>

definition digit :: "nat \<Rightarrow> char" where
  "digit d = ''0123456789'' ! d"

function show_nat :: "nat \<Rightarrow> string" where
  "show_nat n = (if n < 10 then [digit n] else show_nat (n div 10) @ [digit (n mod 10)])"
  by pat_completeness auto
termination
  by (relation "measure id") auto

declare show_nat.simps [simp del]

subsection \<open>Data\<close>

text \<open>\<^verbatim>\<open>auth.data\<close> of \<^verbatim>\<open>users.getAuthenticated\<close>.\<close>

record user =
  user_id :: nat
  login :: string

text \<open>
  A review as listed by GitHub. \<open>review_user\<close> is \<^verbatim>\<open>review.user.id\<close>; \<open>None\<close> is a review
  whose \<^verbatim>\<open>user\<close> is \<^verbatim>\<open>null\<close>, on which reading \<^verbatim>\<open>.id\<close> throws.
\<close>

record review =
  review_id :: nat
  review_user :: "nat option"
  review_state :: string

text \<open>
  A review comment. The fields the program reads are named; every other field GitHub
  sends is in the record's extension \<open>'a\<close>. \<open>new_id = None\<close> is an absent \<^verbatim>\<open>new_id\<close>.
\<close>

record comment =
  comment_id :: nat
  commit_id :: string
  path :: string
  position :: "nat option"
  body :: string
  new_id :: "nat option"

text \<open>
  The options after parsing: \<^verbatim>\<open>[org, repo] = opt.options.repo.split('/')\<close>,
  \<^verbatim>\<open>pr = +opt.options.pr\<close>, \<^verbatim>\<open>opt.options.save\<close> and \<^verbatim>\<open>opt.options.load\<close>
  (\<open>None\<close> when the option is not among \<^verbatim>\<open>opt.options\<close>).
\<close>

record cfg =
  org :: string
  repo :: string
  pr :: nat
  save :: "string option"
  load :: "string option"

text \<open>
  The argument of \<^verbatim>\<open>pulls.createComment\<close>:
  owner, repo, pull_number, body, commit_id, path, position.
\<close>

type_synonym new_comment = "string \<times> string \<times> nat \<times> string \<times> string \<times> string \<times> nat option"

subsection \<open>The outside world\<close>

text \<open>
  One event per external call, in the order the calls are made. \<open>'f\<close> is the type of a
  file's content.
\<close>

datatype 'f event =
    GetAuthenticated
  | ListReviewsPage
  | GetCommentsForReview nat
  | WriteFile string 'f
  | WriteFileFailed string error
  | ReadFile string
  | TimeoutNotify nat nat
  | DeletePendingReview nat
  | CreateComment new_comment "error + nat"
  | ConsoleError string
  | ConsoleErrorValue error
  | ConsoleErrorStack error
  | ShowHelp

record 'f world =
  files :: "string \<rightharpoonup> 'f"
  trace :: "'f event list"

definition start :: "(string \<rightharpoonup> 'f) \<Rightarrow> 'f world" where
  "start fs = \<lparr>files = fs, trace = []\<rparr>"

definition emit :: "'f event \<Rightarrow> 'f world \<Rightarrow> 'f world" where
  "emit e w = w\<lparr>trace := trace w @ [e]\<rparr>"

text \<open>
  The answers of GitHub and of the file system. \<open>listReviews\<close> is the sequence of pages
  of \<^verbatim>\<open>github.paginate.iterator\<close>, a page being its reviews or the error its request
  throws. \<open>getCommentsForReview\<close> is the result of \<^verbatim>\<open>github.paginate\<close> (\<open>None\<close>: a falsy
  result). \<open>createComment\<close> answers with the new comment's id, \<open>writeFile\<close> with the error
  of a failed write; both are called more than once in a run, so their answer may depend
  on the calls made before.
\<close>

record ('a, 'f) env =
  getAuthenticated :: "error + user"
  listReviews :: "(error + review list) list"
  getCommentsForReview :: "nat \<Rightarrow> error + 'a comment_scheme list option"
  deletePendingReview :: "nat \<Rightarrow> error option"
  createComment :: "'f event list \<Rightarrow> new_comment \<Rightarrow> error + nat"
  writeFile :: "'f event list \<Rightarrow> string \<Rightarrow> error option"

text \<open>
  \<^verbatim>\<open>JSON.stringify\<close> and \<^verbatim>\<open>JSON.parse\<close> on a list of comments, parameters of the model.
  \<open>parse\<close> is \<open>None\<close> where \<^verbatim>\<open>JSON.parse\<close> throws; a file that parses is taken to hold an
  array of comments.
\<close>

record ('a, 'f) json =
  stringify :: "'a comment_scheme list \<Rightarrow> 'f"
  parse :: "'f \<Rightarrow> 'a comment_scheme list option"

subsection \<open>saveComments (lines 56 to 64)\<close>

text \<open>A failed write is taken to leave the file as it was.\<close>

definition saveComments ::
  "('a, 'f) json \<Rightarrow> ('a, 'f) env \<Rightarrow> string \<Rightarrow> 'a comment_scheme list \<Rightarrow> 'f world
     \<Rightarrow> (error + unit) \<times> 'f world" where
  "saveComments J env saveFile comments w =
     (case writeFile env (trace w) saveFile of
        None \<Rightarrow>
          (Inr (), emit (WriteFile saveFile (stringify J comments))
                     (w\<lparr>files := (files w)(saveFile \<mapsto> stringify J comments)\<rparr>))
      | Some e \<Rightarrow>
          (Inl (AppError ''Failed to save comments into a file'' (Some e)),
           emit (WriteFileFailed saveFile e) w))"

subsection \<open>main, lines 117 to 126: the caller's id\<close>

definition fetchUser :: "('a, 'f) env \<Rightarrow> 'f world \<Rightarrow> (error + nat) \<times> 'f world" where
  "fetchUser env w =
     (case getAuthenticated env of
        Inl e \<Rightarrow> (Inl (AppError ''Failed to fetch user info'' (Some e)), emit GetAuthenticated w)
      | Inr auth \<Rightarrow> (Inr (user_id auth), emit GetAuthenticated w))"

subsection \<open>main, lines 128 to 149: the pending review\<close>

text \<open>The inner loop, over the reviews of one page; \<open>reviewId\<close> is carried along.\<close>

fun scan_page :: "nat \<Rightarrow> review list \<Rightarrow> nat option \<Rightarrow> error + nat option" where
  "scan_page userId [] reviewId = Inr reviewId"
| "scan_page userId (r # rs) reviewId =
     (case review_user r of
        None \<Rightarrow> Inl (Thrown ''TypeError: Cannot read property id of null'')
      | Some u \<Rightarrow>
          if u = userId \<and> review_state r = ''PENDING'' then
            (if reviewId \<noteq> None then Inl (AppError ''More than one pending review?'' None)
             else scan_page userId rs (Some (review_id r)))
          else scan_page userId rs reviewId)"

text \<open>The outer loop, over the pages: one request per page, until one throws.\<close>

fun scan_pages ::
  "nat \<Rightarrow> (error + review list) list \<Rightarrow> nat option \<Rightarrow> 'f world
     \<Rightarrow> (error + nat option) \<times> 'f world" where
  "scan_pages userId [] reviewId w = (Inr reviewId, w)"
| "scan_pages userId (p # ps) reviewId w =
     (case p of
        Inl e \<Rightarrow> (Inl e, emit ListReviewsPage w)
      | Inr rs \<Rightarrow>
          (case scan_page userId rs reviewId of
             Inl e \<Rightarrow> (Inl e, emit ListReviewsPage w)
           | Inr reviewId' \<Rightarrow> scan_pages userId ps reviewId' (emit ListReviewsPage w)))"

definition findReview ::
  "cfg \<Rightarrow> ('a, 'f) env \<Rightarrow> nat \<Rightarrow> 'f world \<Rightarrow> (error + nat option) \<times> 'f world" where
  "findReview c env userId w =
     (case scan_pages userId (listReviews env) None w of
        (Inl e, w') \<Rightarrow>
          (Inl (AppError (''Failed to fetch list of reviews for PR '' @ show_nat (pr c)) (Some e)),
           w')
      | (Inr reviewId, w') \<Rightarrow> (Inr reviewId, w'))"

subsection \<open>main, lines 154 to 163: the snapshot path\<close>

definition saveFile_of :: "cfg \<Rightarrow> nat option \<Rightarrow> string" where
  "saveFile_of c reviewId =
     (case truthy_str (save c) of
        Some s \<Rightarrow> s
      | None \<Rightarrow>
          (case truthy_num reviewId of
             Some r \<Rightarrow>
               org c @ ''_'' @ repo c @ ''_'' @ show_nat (pr c) @ ''_'' @ show_nat r @ ''.json''
           | None \<Rightarrow>
               (case truthy_str (load c) of
                  Some l \<Rightarrow> l
                | None \<Rightarrow> org c @ ''_'' @ repo c @ ''_'' @ show_nat (pr c) @ ''_sync.json'')))"

subsection \<open>main, lines 164 to 191: the comments\<close>

text \<open>
  Fetched from GitHub and saved at once when a review was found and \<^verbatim>\<open>load\<close> is not among
  the options; read from the file \<^verbatim>\<open>opt.options.load\<close> when that is truthy; an error
  otherwise. The error of a failed load has no \<^verbatim>\<open>extra\<close>.
\<close>

definition load_error :: "string \<Rightarrow> error" where
  "load_error l =
     AppError (''Failed to load comments from file '' @ [CHR 0x27] @ l @ [CHR 0x27]) None"

definition fetchComments ::
  "('a, 'f) json \<Rightarrow> ('a, 'f) env \<Rightarrow> nat \<Rightarrow> string \<Rightarrow> 'f world
     \<Rightarrow> (error + 'a comment_scheme list) \<times> 'f world" where
  "fetchComments J env r saveFile w =
     (case getCommentsForReview env r of
        Inl e \<Rightarrow>
          (Inl (AppError (''Failed to fetch a list of comments for the review '' @ show_nat r)
                  (Some e)),
           emit (GetCommentsForReview r) w)
      | Inr res \<Rightarrow>
          (let comments = (case res of Some cs \<Rightarrow> cs | None \<Rightarrow> []) in
           case saveComments J env saveFile comments (emit (GetCommentsForReview r) w) of
             (Inl e, w') \<Rightarrow> (Inl e, w')
           | (Inr u, w') \<Rightarrow> (Inr comments, w')))"

definition loadComments ::
  "('a, 'f) json \<Rightarrow> string \<Rightarrow> 'f world \<Rightarrow> (error + 'a comment_scheme list) \<times> 'f world" where
  "loadComments J l w =
     (case files w l of
        None \<Rightarrow> (Inl (load_error l), emit (ReadFile l) w)
      | Some r \<Rightarrow>
          (case parse J r of
             None \<Rightarrow> (Inl (load_error l), emit (ReadFile l) w)
           | Some comments \<Rightarrow> (Inr comments, emit (ReadFile l) w)))"

definition getComments ::
  "('a, 'f) json \<Rightarrow> cfg \<Rightarrow> ('a, 'f) env \<Rightarrow> nat option \<Rightarrow> string \<Rightarrow> 'f world
     \<Rightarrow> (error + 'a comment_scheme list) \<times> 'f world" where
  "getComments J c env reviewId saveFile w =
     (case (if load c = None then truthy_num reviewId else None) of
        Some r \<Rightarrow> fetchComments J env r saveFile w
      | None \<Rightarrow>
          (case truthy_str (load c) of
             Some l \<Rightarrow> loadComments J l w
           | None \<Rightarrow>
               (Inl (AppError (''No pending review for PR '' @ show_nat (pr c)
                               @ '' and no --load option specified'') None),
                w)))"

subsection \<open>main, lines 193 to 209: the pending review is deleted\<close>

text \<open>
  \<^verbatim>\<open>timeoutNotify(message, 10)\<close> (lines 41 to 54) prints its countdown ten times, a second
  each, and returns: it is the one event \<open>TimeoutNotify reviewId 10\<close>. The deletion follows
  it; \<open>DeletePendingReview\<close> records the call, whether GitHub accepts it or not.
\<close>

definition dismissReview ::
  "('a, 'f) env \<Rightarrow> nat option \<Rightarrow> 'f world \<Rightarrow> (error + unit) \<times> 'f world" where
  "dismissReview env reviewId w =
     (case truthy_num reviewId of
        None \<Rightarrow> (Inr (), w)
      | Some r \<Rightarrow>
          (case deletePendingReview env r of
             Some e \<Rightarrow>
               (Inl (AppError (''Failed to dismiss review '' @ show_nat r) (Some e)),
                emit (DeletePendingReview r) (emit (TimeoutNotify r 10) w))
           | None \<Rightarrow> (Inr (), emit (DeletePendingReview r) (emit (TimeoutNotify r 10) w))))"

subsection \<open>main, lines 211 to 236: the comments are posted\<close>

definition params :: "cfg \<Rightarrow> 'a comment_scheme \<Rightarrow> new_comment" where
  "params c comment =
     (org c, repo c, pr c, body comment, commit_id comment, path comment, position comment)"

text \<open>
  The loop over \<^verbatim>\<open>comments\<close>. A comment with a truthy \<^verbatim>\<open>new_id\<close> is skipped; a successful
  call sets \<^verbatim>\<open>new_id\<close>; the \<^verbatim>\<open>catch\<close> swallows the error of a failed one. The loop returns
  the list as the in-place updates leave it.
\<close>

fun postComments ::
  "cfg \<Rightarrow> ('a, 'f) env \<Rightarrow> 'a comment_scheme list \<Rightarrow> 'f world
     \<Rightarrow> 'a comment_scheme list \<times> 'f world" where
  "postComments c env [] w = ([], w)"
| "postComments c env (comment # rest) w =
     (case truthy_num (new_id comment) of
        Some n \<Rightarrow>
          (case postComments c env rest w of (rest', w') \<Rightarrow> (comment # rest', w'))
      | None \<Rightarrow>
          (case createComment env (trace w) (params c comment) of
             Inr n \<Rightarrow>
               (case postComments c env rest
                       (emit (CreateComment (params c comment) (Inr n)) w) of
                  (rest', w') \<Rightarrow> (comment\<lparr>new_id := Some n\<rparr> # rest', w'))
           | Inl e \<Rightarrow>
               (case postComments c env rest
                       (emit (CreateComment (params c comment) (Inl e)) w) of
                  (rest', w') \<Rightarrow> (comment # rest', w'))))"

subsection \<open>main, lines 117 to 240\<close>

text \<open>
  \<^verbatim>\<open>main\<close> in two blocks. \<open>prepare\<close> is lines 117 to 209: it ends with the snapshot path and
  the comments to post, or with the error thrown. \<open>replay\<close> is lines 211 to 239: the loop
  and the final \<^verbatim>\<open>saveComments\<close>.
\<close>

definition prepare ::
  "('a, 'f) json \<Rightarrow> cfg \<Rightarrow> ('a, 'f) env \<Rightarrow> 'f world
     \<Rightarrow> (error + string \<times> 'a comment_scheme list) \<times> 'f world" where
  "prepare J c env w =
     (case fetchUser env w of
        (Inl e, w1) \<Rightarrow> (Inl e, w1)
      | (Inr userId, w1) \<Rightarrow>
     (case findReview c env userId w1 of
        (Inl e, w2) \<Rightarrow> (Inl e, w2)
      | (Inr reviewId, w2) \<Rightarrow>
     (case getComments J c env reviewId (saveFile_of c reviewId) w2 of
        (Inl e, w3) \<Rightarrow> (Inl e, w3)
      | (Inr comments, w3) \<Rightarrow>
     (case dismissReview env reviewId w3 of
        (Inl e, w4) \<Rightarrow> (Inl e, w4)
      | (Inr u, w4) \<Rightarrow> (Inr (saveFile_of c reviewId, comments), w4)))))"

definition replay ::
  "('a, 'f) json \<Rightarrow> cfg \<Rightarrow> ('a, 'f) env \<Rightarrow> string \<Rightarrow> 'a comment_scheme list \<Rightarrow> 'f world
     \<Rightarrow> (error + unit) \<times> 'f world" where
  "replay J c env saveFile comments w =
     (case postComments c env comments w of
        (comments', w') \<Rightarrow> saveComments J env saveFile comments' w')"

definition main ::
  "('a, 'f) json \<Rightarrow> cfg \<Rightarrow> ('a, 'f) env \<Rightarrow> 'f world \<Rightarrow> (error + unit) \<times> 'f world" where
  "main J c env w =
     (case prepare J c env w of
        (Inl e, w') \<Rightarrow> (Inl e, w')
      | (Inr (saveFile, comments), w') \<Rightarrow> replay J c env saveFile comments w')"

subsection \<open>run (lines 246 to 264)\<close>

text \<open>
  The exit code of the process and what \<^verbatim>\<open>run\<close> prints: 1 after \<^verbatim>\<open>process.exit(1)\<close>, 0 when
  \<^verbatim>\<open>main\<close> returns. An \<^verbatim>\<open>AppError\<close> with no \<^verbatim>\<open>extra\<close> shows the help.
\<close>

definition report :: "error \<Rightarrow> 'f event list" where
  "report e =
     (if instanceof_AppError e then
        (case extra e of
           None \<Rightarrow> [ConsoleError (''Error: '' @ message e), ShowHelp]
         | Some x \<Rightarrow> [ConsoleError (''Error: '' @ message e), ConsoleErrorValue x])
      else [ConsoleErrorValue e, ConsoleErrorStack e])"

definition run ::
  "('a, 'f) json \<Rightarrow> cfg \<Rightarrow> ('a, 'f) env \<Rightarrow> 'f world \<Rightarrow> nat \<times> 'f world" where
  "run J c env w =
     (case main J c env w of
        (Inr u, w') \<Rightarrow> (0, w')
      | (Inl e, w') \<Rightarrow> (1, w'\<lparr>trace := trace w' @ report e\<rparr>))"

section \<open>Vocabulary of the properties\<close>

text \<open>
  A review is a pending review of the caller when the test of line 139 holds of it.
  \<open>listed\<close> is every review of every page that was delivered, in order; \<open>pending_of\<close>
  the ids of the caller's pending reviews among them. \<open>listing_ok\<close>: every page is delivered
  and no review has a \<^verbatim>\<open>null\<close> user.
\<close>

definition is_pending_of :: "nat \<Rightarrow> review \<Rightarrow> bool" where
  "is_pending_of userId r = (review_user r = Some userId \<and> review_state r = ''PENDING'')"

definition pending_of :: "nat \<Rightarrow> review list \<Rightarrow> nat list" where
  "pending_of userId rs = map review_id (filter (is_pending_of userId) rs)"

fun listed :: "(error + review list) list \<Rightarrow> review list" where
  "listed [] = []"
| "listed (Inl e # ps) = listed ps"
| "listed (Inr rs # ps) = rs @ listed ps"

fun listing_ok :: "(error + review list) list \<Rightarrow> bool" where
  "listing_ok [] = True"
| "listing_ok (Inl e # ps) = False"
| "listing_ok (Inr rs # ps) = (list_all (\<lambda>r. review_user r \<noteq> None) rs \<and> listing_ok ps)"

text \<open>
  \<open>attempts\<close>: the calls of \<^verbatim>\<open>pulls.createComment\<close> in a trace, each with its argument and
  its outcome. \<open>unposted\<close>: the test \<^verbatim>\<open>!comment.new_id\<close> of line 213. \<open>post_events\<close>: the calls
  for the comments \<open>us\<close> with the outcomes \<open>outs\<close>, in order.
\<close>

fun attempts :: "'f event list \<Rightarrow> (new_comment \<times> (error + nat)) list" where
  "attempts [] = []"
| "attempts (CreateComment p out # es) = (p, out) # attempts es"
| "attempts (e # es) = attempts es"

definition unposted :: "'a comment_scheme \<Rightarrow> bool" where
  "unposted cm = (truthy_num (new_id cm) = None)"

definition post_events ::
  "cfg \<Rightarrow> 'a comment_scheme list \<Rightarrow> (error + nat) list \<Rightarrow> 'f event list" where
  "post_events c us outs = map2 (\<lambda>cm out. CreateComment (params c cm) out) us outs"

text \<open>
  \<open>saved_after_every_attempt\<close>: after each call of \<^verbatim>\<open>pulls.createComment\<close> in the trace, a
  file is written before the next call is made (\<open>written_before_next\<close>).
\<close>

fun written_before_next :: "'f event list \<Rightarrow> bool" where
  "written_before_next [] = False"
| "written_before_next (WriteFile f x # es) = True"
| "written_before_next (CreateComment p out # es) = False"
| "written_before_next (e # es) = written_before_next es"

fun saved_after_every_attempt :: "'f event list \<Rightarrow> bool" where
  "saved_after_every_attempt [] = True"
| "saved_after_every_attempt (CreateComment p out # es) =
     (written_before_next es \<and> saved_after_every_attempt es)"
| "saved_after_every_attempt (e # es) = saved_after_every_attempt es"

text \<open>Kinds of events.\<close>

fun is_delete :: "'f event \<Rightarrow> bool" where
  "is_delete (DeletePendingReview r) = True"
| "is_delete e = False"

fun is_write_failed :: "'f event \<Rightarrow> bool" where
  "is_write_failed (WriteFileFailed p e) = True"
| "is_write_failed e = False"

fun is_attempt :: "'f event \<Rightarrow> bool" where
  "is_attempt (CreateComment p out) = True"
| "is_attempt e = False"

section \<open>Scenarios\<close>

text \<open>
  The scenario of the specification: pull request 1234 of \<^verbatim>\<open>org/repo\<close>, the caller is user 7,
  the pending review 555 has the comments 10 and 11. In the scenarios a file's content is
  the list of comments itself.
\<close>

definition J0 :: "(unit, comment list) json" where
  "J0 = \<lparr>stringify = (\<lambda>cs. cs), parse = Some\<rparr>"

definition c10 :: comment where
  "c10 = \<lparr>comment_id = 10, commit_id = ''0a1b2c3d4e'', path = ''src/a.c'', position = Some 3,
           body = ''typo'', new_id = None\<rparr>"

definition c11 :: comment where
  "c11 = \<lparr>comment_id = 11, commit_id = ''0a1b2c3d4e'', path = ''src/b.c'', position = Some 8,
           body = ''leak'', new_id = None\<rparr>"

definition cfg0 :: cfg where
  "cfg0 = \<lparr>org = ''org'', repo = ''repo'', pr = 1234, save = None, load = None\<rparr>"

definition me :: user where
  "me = \<lparr>user_id = 7, login = ''me''\<rparr>"

definition pending :: "nat \<Rightarrow> nat \<Rightarrow> review" where
  "pending r u = \<lparr>review_id = r, review_user = Some u, review_state = ''PENDING''\<rparr>"

definition approved :: "nat \<Rightarrow> nat \<Rightarrow> review" where
  "approved r u = \<lparr>review_id = r, review_user = Some u, review_state = ''APPROVED''\<rparr>"

text \<open>
  GitHub with the given pages of reviews. Every call succeeds; a call of
  \<^verbatim>\<open>pulls.createComment\<close> answers with the id \<open>100 + k\<close>, \<open>k\<close> being the number of events
  before it.
\<close>

definition github :: "(error + review list) list \<Rightarrow> (unit, comment list) env" where
  "github pages =
     \<lparr>getAuthenticated = Inr me,
      listReviews = pages,
      getCommentsForReview = (\<lambda>r. Inr (Some [c10, c11])),
      deletePendingReview = (\<lambda>r. None),
      createComment = (\<lambda>h p. Inr (100 + length h)),
      writeFile = (\<lambda>h p. None)\<rparr>"

definition env_one :: "(unit, comment list) env" where
  "env_one = github [Inr [approved 554 8, pending 555 7]]"

definition env_two :: "(unit, comment list) env" where
  "env_two = github [Inr [pending 555 7], Inr [approved 554 8], Inr [pending 556 7]]"

definition env_none :: "(unit, comment list) env" where
  "env_none = github [Inr [approved 554 8, pending 553 8]]"

definition env_first :: "(unit, comment list) env" where
  "env_first = github [Inr [pending 555 7], Inr [approved 554 8], Inr [approved 557 9]]"

text \<open>As \<open>env_one\<close>, with a file system that refuses every write.\<close>

definition env_nowrite :: "(unit, comment list) env" where
  "env_nowrite = (github [Inr [approved 554 8, pending 555 7]])
     \<lparr>writeFile := (\<lambda>h p. Some (Thrown ''EACCES''))\<rparr>"

text \<open>A second run: \<^verbatim>\<open>--load=snap.json\<close>, the file holding comment 10 already posted and
  comment 11 not yet.\<close>

definition cfg_load :: cfg where
  "cfg_load = cfg0\<lparr>load := Some ''snap.json''\<rparr>"

definition fs_snap :: "string \<rightharpoonup> comment list" where
  "fs_snap = [''snap.json'' \<mapsto> [c10\<lparr>new_id := Some 106\<rparr>, c11]]"

text \<open>
  A later run that loads the snapshot of review 555; and GitHub refusing the first comment
  posted in a run (the call whose history has six events).
\<close>

definition cfg_again :: cfg where
  "cfg_again = cfg0\<lparr>load := Some ''org_repo_1234_555.json''\<rparr>"

definition env_flaky :: "(unit, comment list) env" where
  "env_flaky = (github [Inr [approved 554 8, pending 555 7]])
     \<lparr>createComment :=
        (\<lambda>h p. if length h = 6 then Inl (Thrown ''502'') else Inr (100 + length h))\<rparr>"

section \<open>The review listing\<close>

lemma pending_of_simps [simp]:
  "pending_of u [] = []"
  "pending_of u (r # rs) =
     (if is_pending_of u r then review_id r # pending_of u rs else pending_of u rs)"
  "pending_of u (xs @ ys) = pending_of u xs @ pending_of u ys"
  by (simp_all add: pending_of_def)

lemma scan_page_Inr:
  "scan_page u rs rid = Inr rid' \<Longrightarrow>
     (pending_of u rs = [] \<and> rid' = rid) \<or> (rid = None \<and> (\<exists>x. pending_of u rs = [x] \<and> rid' = Some x))"
proof (induction rs arbitrary: rid)
  case Nil
  then show ?case by simp
next
  case (Cons r rs)
  then show ?case
    by (fastforce simp: is_pending_of_def split: option.splits if_splits)
qed

lemma scan_page_Inl:
  "scan_page u rs rid = Inl e \<Longrightarrow> list_all (\<lambda>r. review_user r \<noteq> None) rs \<Longrightarrow>
     e = AppError ''More than one pending review?'' None"
  by (induction rs arbitrary: rid) (auto split: option.splits if_splits)

lemma scan_pages_Inr:
  "scan_pages u ps rid w = (Inr rid', w') \<Longrightarrow>
     ((pending_of u (listed ps) = [] \<and> rid' = rid)
       \<or> (rid = None \<and> (\<exists>x. pending_of u (listed ps) = [x] \<and> rid' = Some x)))
     \<and> w' = w\<lparr>trace := trace w @ replicate (length ps) ListReviewsPage\<rparr>"
proof (induction ps arbitrary: rid w)
  case Nil
  then show ?case by simp
next
  case (Cons p ps)
  show ?case
  proof (cases p)
    case (Inl e)
    with Cons.prems show ?thesis by simp
  next
    case (Inr rs)
    with Cons.prems obtain mid where m: "scan_page u rs rid = Inr mid"
      and rest: "scan_pages u ps mid (emit ListReviewsPage w) = (Inr rid', w')"
      by (auto split: sum.splits)
    from scan_page_Inr [OF m] Cons.IH [OF rest] Inr show ?thesis
      by (auto simp: emit_def replicate_append_same)
  qed
qed

lemma scan_pages_Inl:
  "scan_pages u ps rid w = (Inl e, w') \<Longrightarrow>
     (\<exists>k. k < length ps \<and> w' = w\<lparr>trace := trace w @ replicate (Suc k) ListReviewsPage\<rparr>)
     \<and> (listing_ok ps \<longrightarrow> e = AppError ''More than one pending review?'' None)"
proof (induction ps arbitrary: rid w)
  case Nil
  then show ?case by simp
next
  case (Cons p ps)
  show ?case
  proof (cases p)
    case (Inl e')
    with Cons.prems show ?thesis by (auto simp: emit_def)
  next
    case (Inr rs)
    show ?thesis
    proof (cases "scan_page u rs rid")
      case (Inl e')
      with Inr Cons.prems have "e' = e" "w' = emit ListReviewsPage w" by auto
      with Inl Inr scan_page_Inl [of u rs rid e] show ?thesis
        by (auto simp: emit_def)
    next
      case (Inr mid)
      with \<open>p = Inr rs\<close> Cons.prems
      have rest: "scan_pages u ps mid (emit ListReviewsPage w) = (Inl e, w')" by simp
      from Cons.IH [OF rest] obtain k where k: "k < length ps"
        "w' = (emit ListReviewsPage w)\<lparr>trace := trace (emit ListReviewsPage w) @ replicate (Suc k) ListReviewsPage\<rparr>"
        and ok: "listing_ok ps \<longrightarrow> e = AppError ''More than one pending review?'' None"
        by blast
      from k have "Suc k < length (p # ps) \<and> w' = w\<lparr>trace := trace w @ replicate (Suc (Suc k)) ListReviewsPage\<rparr>"
        by (simp add: emit_def replicate_append_same)
      with ok \<open>p = Inr rs\<close> show ?thesis by auto
    qed
  qed
qed


lemma findReview_Inr:
  "findReview c env u w = (Inr rid, w') \<Longrightarrow> scan_pages u (listReviews env) None w = (Inr rid, w')"
  by (auto simp: findReview_def split: prod.splits sum.splits)

lemma findReview_Inl:
  "findReview c env u w = (Inl e, w') \<Longrightarrow>
     \<exists>e0. e = AppError (''Failed to fetch list of reviews for PR '' @ show_nat (pr c)) (Some e0)
        \<and> scan_pages u (listReviews env) None w = (Inl e0, w')"
  by (auto simp: findReview_def split: prod.splits sum.splits)

lemma two_pending_no_review:
  assumes "2 \<le> length (pending_of u (listed (listReviews env)))"
  shows "\<exists>e0 k. findReview c env u w =
           (Inl (AppError (''Failed to fetch list of reviews for PR '' @ show_nat (pr c)) (Some e0)),
            w\<lparr>trace := trace w @ replicate (Suc k) ListReviewsPage\<rparr>)
         \<and> (listing_ok (listReviews env) \<longrightarrow> e0 = AppError ''More than one pending review?'' None)"
proof (cases "findReview c env u w")
  case (Pair res w')
  show ?thesis
  proof (cases res)
    case (Inl e)
    with Pair findReview_Inl [of c env u w e w'] obtain e0
      where e: "e = AppError (''Failed to fetch list of reviews for PR '' @ show_nat (pr c)) (Some e0)"
        and s: "scan_pages u (listReviews env) None w = (Inl e0, w')"
      by auto
    from scan_pages_Inl [OF s] Pair Inl e show ?thesis by auto
  next
    case (Inr rid)
    with Pair findReview_Inr [of c env u w rid w']
    have "scan_pages u (listReviews env) None w = (Inr rid, w')" by simp
    from scan_pages_Inr [OF this] assms show ?thesis by auto
  qed
qed

lemma scan_page_More:
  "scan_page u rs rid = Inl e \<Longrightarrow> list_all (\<lambda>r. review_user r \<noteq> None) rs \<Longrightarrow>
     (rid \<noteq> None \<and> pending_of u rs \<noteq> []) \<or> 2 \<le> length (pending_of u rs)"
proof (induction rs arbitrary: rid)
  case Nil
  then show ?case by simp
next
  case (Cons r rs)
  from Cons.prems(2) obtain v where v: "review_user r = Some v"
    and ok: "list_all (\<lambda>r. review_user r \<noteq> None) rs"
    by auto
  show ?case
  proof (cases "v = u \<and> review_state r = ''PENDING''")
    case True
    show ?thesis
    proof (cases rid)
      case None
      with True v Cons.prems(1) have "scan_page u rs (Some (review_id r)) = Inl e" by simp
      from Cons.IH [OF this ok] have "pending_of u rs \<noteq> []" by auto
      then have "1 \<le> length (pending_of u rs)" by (cases "pending_of u rs") auto
      with True v show ?thesis by (simp add: is_pending_of_def)
    next
      case (Some x)
      with True v show ?thesis by (simp add: is_pending_of_def)
    qed
  next
    case False
    with v Cons.prems(1) have "scan_page u rs rid = Inl e" by auto
    from Cons.IH [OF this ok] False v show ?thesis by (auto simp: is_pending_of_def)
  qed
qed

lemma scan_pages_More:
  "scan_pages u ps rid w = (Inl e, w') \<Longrightarrow> listing_ok ps \<Longrightarrow>
     (rid \<noteq> None \<and> pending_of u (listed ps) \<noteq> []) \<or> 2 \<le> length (pending_of u (listed ps))"
proof (induction ps arbitrary: rid w)
  case Nil
  then show ?case by simp
next
  case (Cons p ps)
  from Cons.prems(2) obtain rs where p: "p = Inr rs"
    and ok: "list_all (\<lambda>r. review_user r \<noteq> None) rs" "listing_ok ps"
    by (cases p) auto
  show ?case
  proof (cases "scan_page u rs rid")
    case (Inl e')
    from scan_page_More [OF Inl ok(1)] p show ?thesis by auto
  next
    case (Inr mid)
    with p Cons.prems(1)
    have rest: "scan_pages u ps mid (emit ListReviewsPage w) = (Inl e, w')" by simp
    from scan_page_Inr [OF Inr] show ?thesis
    proof
      assume "pending_of u rs = [] \<and> mid = rid"
      with Cons.IH [OF rest ok(2)] p show ?thesis by auto
    next
      assume a: "rid = None \<and> (\<exists>x. pending_of u rs = [x] \<and> mid = Some x)"
      with Cons.IH [OF rest ok(2)] have "pending_of u (listed ps) \<noteq> []" by auto
      then have "1 \<le> length (pending_of u (listed ps))"
        by (cases "pending_of u (listed ps)") auto
      with a p show ?thesis by auto
    qed
  qed
qed

lemma scan_pages_found:
  assumes "listing_ok ps" and "pending_of u (listed ps) = [r]"
  shows "scan_pages u ps None w =
           (Inr (Some r), w\<lparr>trace := trace w @ replicate (length ps) ListReviewsPage\<rparr>)"
proof (cases "scan_pages u ps None w")
  case (Pair res w')
  show ?thesis
  proof (cases res)
    case (Inl e)
    with Pair scan_pages_More [of u ps None w e w'] assms show ?thesis by simp
  next
    case (Inr rid)
    with Pair scan_pages_Inr [of u ps None w rid w'] assms show ?thesis by simp
  qed
qed

lemma scan_pages_none:
  assumes "listing_ok ps" and "pending_of u (listed ps) = []"
  shows "scan_pages u ps None w =
           (Inr None, w\<lparr>trace := trace w @ replicate (length ps) ListReviewsPage\<rparr>)"
proof (cases "scan_pages u ps None w")
  case (Pair res w')
  show ?thesis
  proof (cases res)
    case (Inl e)
    with Pair scan_pages_More [of u ps None w e w'] assms show ?thesis by simp
  next
    case (Inr rid)
    with Pair scan_pages_Inr [of u ps None w rid w'] assms show ?thesis by simp
  qed
qed

section \<open>The posting loop\<close>

lemma attempts_append [simp]: "attempts (xs @ ys) = attempts xs @ attempts ys"
  by (induction xs rule: attempts.induct) auto

lemma attempts_post_events [simp]:
  "attempts (post_events c us outs) = zip (map (params c) us) outs"
  unfolding post_events_def
  by (induction us arbitrary: outs) (auto simp: zip_Cons1 split: list.splits)

lemma post_events_simps [simp]:
  "post_events c [] outs = []"
  "post_events c us [] = []"
  "post_events c (cm # us) (out # outs) = CreateComment (params c cm) out # post_events c us outs"
  by (simp_all add: post_events_def)

lemma unposted_update [simp]: "unposted (cm\<lparr>new_id := v\<rparr>) = (truthy_num v = None)"
  by (simp add: unposted_def)

lemma postComments_effect:
  "postComments c env cs w = (cs', w') \<Longrightarrow>
     \<exists>outs. length outs = length (filter unposted cs)
       \<and> w' = w\<lparr>trace := trace w @ post_events c (filter unposted cs) outs\<rparr>
       \<and> map (new_id_update (\<lambda>v. None)) cs' = map (new_id_update (\<lambda>v. None)) cs
       \<and> ((\<forall>n. Inr n \<in> set outs \<longrightarrow> n \<noteq> 0) \<longrightarrow>
            filter unposted cs'
              = map fst (filter (\<lambda>(cm, out). isl out) (zip (filter unposted cs) outs)))"
proof (induction cs arbitrary: w cs' w')
  case Nil
  then show ?case by simp
next
  case (Cons cm rest)
  show ?case
  proof (cases "unposted cm")
    case False
    with Cons.prems obtain rest' where r: "postComments c env rest w = (rest', w')"
      and cs': "cs' = cm # rest'"
      by (auto simp: unposted_def split: option.splits prod.splits)
    from Cons.IH [OF r] False cs' show ?thesis by auto
  next
    case True
    show ?thesis
    proof (cases "createComment env (trace w) (params c cm)")
      case (Inl e)
      with True Cons.prems obtain rest' where
        r: "postComments c env rest (emit (CreateComment (params c cm) (Inl e)) w) = (rest', w')"
        and cs': "cs' = cm # rest'"
        by (auto simp: unposted_def split: prod.splits)
      from Cons.IH [OF r] obtain outs where
        o: "length outs = length (filter unposted rest)"
        "w' = (emit (CreateComment (params c cm) (Inl e)) w)\<lparr>trace :=
               trace (emit (CreateComment (params c cm) (Inl e)) w)
                 @ post_events c (filter unposted rest) outs\<rparr>"
        "map (new_id_update (\<lambda>v. None)) rest' = map (new_id_update (\<lambda>v. None)) rest"
        "(\<forall>n. Inr n \<in> set outs \<longrightarrow> n \<noteq> 0) \<longrightarrow>
            filter unposted rest'
              = map fst (filter (\<lambda>(cm, out). isl out) (zip (filter unposted rest) outs))"
        by blast
      show ?thesis
        by (rule exI [of _ "Inl e # outs"]) (use o True cs' in \<open>auto simp: emit_def\<close>)
    next
      case (Inr n)
      with True Cons.prems obtain rest' where
        r: "postComments c env rest (emit (CreateComment (params c cm) (Inr n)) w) = (rest', w')"
        and cs': "cs' = cm\<lparr>new_id := Some n\<rparr> # rest'"
        by (auto simp: unposted_def split: prod.splits)
      from Cons.IH [OF r] obtain outs where
        o: "length outs = length (filter unposted rest)"
        "w' = (emit (CreateComment (params c cm) (Inr n)) w)\<lparr>trace :=
               trace (emit (CreateComment (params c cm) (Inr n)) w)
                 @ post_events c (filter unposted rest) outs\<rparr>"
        "map (new_id_update (\<lambda>v. None)) rest' = map (new_id_update (\<lambda>v. None)) rest"
        "(\<forall>n. Inr n \<in> set outs \<longrightarrow> n \<noteq> 0) \<longrightarrow>
            filter unposted rest'
              = map fst (filter (\<lambda>(cm, out). isl out) (zip (filter unposted rest) outs))"
        by blast
      show ?thesis
        by (rule exI [of _ "Inr n # outs"]) (use o True cs' in \<open>auto simp: emit_def\<close>)
    qed
  qed
qed

section \<open>The shape of a run\<close>

lemma is_delete_iff: "is_delete x \<longleftrightarrow> (\<exists>r. x = DeletePendingReview r)"
  by (cases x) auto

lemma is_write_failed_iff: "is_write_failed x \<longleftrightarrow> (\<exists>p e. x = WriteFileFailed p e)"
  by (cases x) auto

lemma findReview_trace:
  "findReview c env u w = (res, w') \<Longrightarrow>
     \<exists>k. w' = w\<lparr>trace := trace w @ replicate k ListReviewsPage\<rparr>"
proof (cases res)
  case (Inl e)
  assume "findReview c env u w = (res, w')"
  with Inl findReview_Inl [of c env u w e w'] obtain e0 where
    "scan_pages u (listReviews env) None w = (Inl e0, w')" by auto
  from scan_pages_Inl [OF this] show ?thesis by blast
next
  case (Inr rid)
  assume "findReview c env u w = (res, w')"
  with Inr findReview_Inr [of c env u w rid w'] have
    "scan_pages u (listReviews env) None w = (Inr rid, w')" by auto
  from scan_pages_Inr [OF this] show ?thesis by blast
qed

lemma replay_shape:
  assumes "replay J c env sf cs w = (res, w')"
  shows "\<exists>outs cs' w5. postComments c env cs w = (cs', w5)
           \<and> length outs = length (filter unposted cs)
           \<and> w5 = w\<lparr>trace := trace w @ post_events c (filter unposted cs) outs\<rparr>
           \<and> ((res = Inr () \<and> writeFile env (trace w5) sf = None
                 \<and> w' = w\<lparr>files := (files w)(sf \<mapsto> stringify J cs'),
                          trace := trace w5 @ [WriteFile sf (stringify J cs')]\<rparr>)
              \<or> (\<exists>e. res = Inl (AppError ''Failed to save comments into a file'' (Some e))
                    \<and> w' = w\<lparr>trace := trace w5 @ [WriteFileFailed sf e]\<rparr>))"
proof (cases "postComments c env cs w")
  case (Pair cs' w5)
  from postComments_effect [OF Pair] obtain outs where
    o: "length outs = length (filter unposted cs)"
       "w5 = w\<lparr>trace := trace w @ post_events c (filter unposted cs) outs\<rparr>"
    by blast
  show ?thesis
  proof (cases "writeFile env (trace w5) sf")
    case None
    with Pair assms o show ?thesis
      by (auto simp: replay_def saveComments_def emit_def)
  next
    case (Some e)
    with Pair assms o show ?thesis
      by (auto simp: replay_def saveComments_def emit_def)
  qed
qed

lemma prepare_fetch:
  assumes "load c = None" and "prepare J c env w = (res, w')"
  shows "\<exists>k. (isl res \<and> w' = w\<lparr>trace := trace w @ GetAuthenticated # replicate k ListReviewsPage\<rparr>)
     \<or> (\<exists>r. isl res \<and> w' = w\<lparr>trace := trace w @ GetAuthenticated # replicate k ListReviewsPage
                  @ [GetCommentsForReview r]\<rparr>)
     \<or> (\<exists>r e. res = Inl (AppError ''Failed to save comments into a file'' (Some e))
           \<and> w' = w\<lparr>trace := trace w @ GetAuthenticated # replicate k ListReviewsPage
                  @ [GetCommentsForReview r, WriteFileFailed (saveFile_of c (Some r)) e]\<rparr>)
     \<or> (\<exists>r got cs. getCommentsForReview env r = Inr got
           \<and> cs = (case got of Some xs \<Rightarrow> xs | None \<Rightarrow> [])
           \<and> (isl res \<or> res = Inr (saveFile_of c (Some r), cs))
           \<and> w' = w\<lparr>files := (files w)(saveFile_of c (Some r) \<mapsto> stringify J cs),
                    trace := trace w @ GetAuthenticated # replicate k ListReviewsPage
                  @ [GetCommentsForReview r, WriteFile (saveFile_of c (Some r)) (stringify J cs),
                     TimeoutNotify r 10, DeletePendingReview r]\<rparr>)"
proof (cases "getAuthenticated env")
  case (Inl e)
  with assms(2) have "isl res \<and> w' = w\<lparr>trace := trace w @ GetAuthenticated # replicate 0 ListReviewsPage\<rparr>"
    by (auto simp: prepare_def fetchUser_def emit_def)
  then show ?thesis by blast
next
  case (Inr auth)
  obtain r2 w2 where f: "findReview c env (user_id auth) (emit GetAuthenticated w) = (r2, w2)"
    by (cases "findReview c env (user_id auth) (emit GetAuthenticated w)") auto
  from findReview_trace [OF f] obtain k where
    w2: "w2 = w\<lparr>trace := trace w @ GetAuthenticated # replicate k ListReviewsPage\<rparr>"
    by (auto simp: emit_def)
  show ?thesis
  proof (cases r2)
    case (Inl e)
    with Inr f w2 assms(2) have "isl res \<and> w' = w\<lparr>trace := trace w @ GetAuthenticated # replicate k ListReviewsPage\<rparr>"
      by (auto simp: prepare_def fetchUser_def)
    then show ?thesis by blast
  next
    case rid: (Inr rid)
    show ?thesis
    proof (cases "truthy_num rid")
      case None
      with rid Inr f w2 assms have "isl res \<and> w' = w\<lparr>trace := trace w @ GetAuthenticated # replicate k ListReviewsPage\<rparr>"
        by (auto simp: prepare_def fetchUser_def getComments_def)
      then show ?thesis by blast
    next
      case (Some r)
      then have r: "rid = Some r" by (cases rid) (auto split: if_splits)
      let ?sf = "saveFile_of c (Some r)"
      let ?pre = "trace w @ GetAuthenticated # replicate k ListReviewsPage"
      from Some r rid Inr f w2 assms have p:
        "(case fetchComments J env r ?sf w2 of
            (Inl e, w3) \<Rightarrow> (Inl e, w3)
          | (Inr comments, w3) \<Rightarrow>
              (case dismissReview env (Some r) w3 of
                 (Inl e, w4) \<Rightarrow> (Inl e, w4)
               | (Inr u, w4) \<Rightarrow> (Inr (?sf, comments), w4))) = (res, w')"
        by (simp add: prepare_def fetchUser_def getComments_def)
      from Some r have r0: "r \<noteq> 0" by (auto split: if_splits)
      show ?thesis
      proof (cases "getCommentsForReview env r")
        case (Inl e)
        with p w2 have "isl res \<and> w' = w\<lparr>trace := ?pre @ [GetCommentsForReview r]\<rparr>"
          by (auto simp: fetchComments_def emit_def)
        then show ?thesis by (intro exI [of _ k]) auto
      next
        case got: (Inr got)
        define cs where "cs = (case got of Some xs \<Rightarrow> xs | None \<Rightarrow> [])"
        show ?thesis
        proof (cases "writeFile env (?pre @ [GetCommentsForReview r]) ?sf")
          case (Some e)
          with p w2 got
          have "res = Inl (AppError ''Failed to save comments into a file'' (Some e))
              \<and> w' = w\<lparr>trace := ?pre @ [GetCommentsForReview r, WriteFileFailed ?sf e]\<rparr>"
            by (auto simp: fetchComments_def saveComments_def emit_def)
          then show ?thesis by (intro exI [of _ k]) auto
        next
          case None
          with p w2 got r0
          have "getCommentsForReview env r = Inr got
              \<and> cs = (case got of Some xs \<Rightarrow> xs | None \<Rightarrow> [])
              \<and> (isl res \<or> res = Inr (?sf, cs))
              \<and> w' = w\<lparr>files := (files w)(?sf \<mapsto> stringify J cs),
                    trace := ?pre @ [GetCommentsForReview r, WriteFile ?sf (stringify J cs),
                     TimeoutNotify r 10, DeletePendingReview r]\<rparr>"
            by (auto simp: fetchComments_def saveComments_def dismissReview_def emit_def cs_def
                  split: option.splits)
          then show ?thesis by (intro exI [of _ k]) auto
        qed
      qed
    qed
  qed
qed


lemma split_unique:
  assumes "\<forall>x\<in>set A. \<not> P x" and "\<forall>x\<in>set B. \<not> P x" and "P y"
    and "A @ d # B = pre @ y # post"
  shows "pre = A \<and> y = d \<and> post = B"
  using assms
proof (induction A arbitrary: pre)
  case Nil
  then show ?case by (cases pre) auto
next
  case (Cons a A)
  then show ?case by (cases pre) auto
qed

lemma post_events_set:
  "x \<in> set (post_events c us outs) \<Longrightarrow> \<exists>p out. x = CreateComment p out"
  unfolding post_events_def by (auto simp del: split_paired_Ex)

lemma main_fetch:
  fixes J :: "('a, 'f) json"
  assumes "load c = None" and "main J c env w = (res, w')"
  shows "\<exists>k. (isl res \<and> trace w' = trace w @ GetAuthenticated # replicate k ListReviewsPage)
     \<or> (\<exists>r. isl res \<and> trace w' = trace w @ GetAuthenticated # replicate k ListReviewsPage
                  @ [GetCommentsForReview r])
     \<or> (\<exists>r e. res = Inl (AppError ''Failed to save comments into a file'' (Some e))
           \<and> trace w' = trace w @ GetAuthenticated # replicate k ListReviewsPage
                  @ [GetCommentsForReview r, WriteFileFailed (saveFile_of c (Some r)) e])
     \<or> (\<exists>r got tl. getCommentsForReview env r = Inr got
           \<and> trace w' = trace w @ GetAuthenticated # replicate k ListReviewsPage
                  @ [GetCommentsForReview r,
                     WriteFile (saveFile_of c (Some r))
                       (stringify J (case got of Some xs \<Rightarrow> xs | None \<Rightarrow> [])),
                     TimeoutNotify r 10, DeletePendingReview r] @ tl
           \<and> ((tl = [] \<and> isl res)
               \<or> (\<exists>(us :: 'a comment_scheme list) outs x.
                     tl = post_events c us outs @ [WriteFile (saveFile_of c (Some r)) x]
                     \<and> res = Inr ())
               \<or> (\<exists>(us :: 'a comment_scheme list) outs e.
                     tl = post_events c us outs @ [WriteFileFailed (saveFile_of c (Some r)) e]
                     \<and> res = Inl (AppError ''Failed to save comments into a file'' (Some e)))))"
proof (cases "prepare J c env w")
  case (Pair rp w4)
  from prepare_fetch [OF assms(1) Pair] obtain k where k:
    "(isl rp \<and> w4 = w\<lparr>trace := trace w @ GetAuthenticated # replicate k ListReviewsPage\<rparr>)
     \<or> (\<exists>r. isl rp \<and> w4 = w\<lparr>trace := trace w @ GetAuthenticated # replicate k ListReviewsPage
                  @ [GetCommentsForReview r]\<rparr>)
     \<or> (\<exists>r e. rp = Inl (AppError ''Failed to save comments into a file'' (Some e))
           \<and> w4 = w\<lparr>trace := trace w @ GetAuthenticated # replicate k ListReviewsPage
                  @ [GetCommentsForReview r, WriteFileFailed (saveFile_of c (Some r)) e]\<rparr>)
     \<or> (\<exists>r got cs. getCommentsForReview env r = Inr got
           \<and> cs = (case got of Some xs \<Rightarrow> xs | None \<Rightarrow> [])
           \<and> (isl rp \<or> rp = Inr (saveFile_of c (Some r), cs))
           \<and> w4 = w\<lparr>files := (files w)(saveFile_of c (Some r) \<mapsto> stringify J cs),
                    trace := trace w @ GetAuthenticated # replicate k ListReviewsPage
                  @ [GetCommentsForReview r, WriteFile (saveFile_of c (Some r)) (stringify J cs),
                     TimeoutNotify r 10, DeletePendingReview r]\<rparr>)"
    by blast
  show ?thesis
  proof (cases rp)
    case (Inl e)
    with Pair assms(2) have "res = Inl e" "w' = w4" by (auto simp: main_def)
    with k Inl show ?thesis
      by (intro exI [of _ k]) auto
  next
    case (Inr sc)
    obtain sf cs where sc: "sc = (sf, cs)" by (cases sc) auto
    with Inr k obtain r got where
      g: "getCommentsForReview env r = Inr got"
         "cs = (case got of Some xs \<Rightarrow> xs | None \<Rightarrow> [])"
         "sf = saveFile_of c (Some r)"
         "trace w4 = trace w @ GetAuthenticated # replicate k ListReviewsPage
                  @ [GetCommentsForReview r, WriteFile (saveFile_of c (Some r)) (stringify J cs),
                     TimeoutNotify r 10, DeletePendingReview r]"
      by auto
    from Pair Inr sc assms(2) have "replay J c env sf cs w4 = (res, w')"
      by (simp add: main_def)
    from replay_shape [OF this] obtain outs cs' w5 where
      w5: "w5 = w4\<lparr>trace := trace w4 @ post_events c (filter unposted cs) outs\<rparr>"
      and fin0: "(res = Inr () \<and> writeFile env (trace w5) sf = None
                 \<and> w' = w4\<lparr>files := (files w4)(sf \<mapsto> stringify J cs'),
                          trace := trace w5 @ [WriteFile sf (stringify J cs')]\<rparr>)
              \<or> (\<exists>e. res = Inl (AppError ''Failed to save comments into a file'' (Some e))
                    \<and> w' = w4\<lparr>trace := trace w5 @ [WriteFileFailed sf e]\<rparr>)"
      by blast
    from fin0 have
      fin: "(res = Inr () \<and> trace w' = trace w5 @ [WriteFile sf (stringify J cs')])
        \<or> (\<exists>e. res = Inl (AppError ''Failed to save comments into a file'' (Some e))
               \<and> trace w' = trace w5 @ [WriteFileFailed sf e])"
      by auto
    let ?sf = "saveFile_of c (Some r)"
    let ?posts = "post_events c (filter unposted cs) outs"
    from fin show ?thesis
    proof
      assume a: "res = Inr () \<and> trace w' = trace w5 @ [WriteFile sf (stringify J cs')]"
      with w5 g have t: "trace w' = trace w @ GetAuthenticated # replicate k ListReviewsPage
                  @ [GetCommentsForReview r,
                     WriteFile ?sf (stringify J (case got of Some xs \<Rightarrow> xs | None \<Rightarrow> [])),
                     TimeoutNotify r 10, DeletePendingReview r]
                  @ (?posts @ [WriteFile ?sf (stringify J cs')])"
        by simp
      show ?thesis
        apply (rule exI [of _ k])
        apply (rule disjI2)+
        apply (rule exI [of _ r], rule exI [of _ got],
            rule exI [of _ "?posts @ [WriteFile ?sf (stringify J cs')]"])
        apply (intro conjI)
          apply (rule g(1))
         apply (rule t)
        apply (rule disjI2, rule disjI1)
        apply (intro exI conjI)
         apply (rule refl)
        using a apply simp
        done
    next
      assume "\<exists>e. res = Inl (AppError ''Failed to save comments into a file'' (Some e))
               \<and> trace w' = trace w5 @ [WriteFileFailed sf e]"
      then obtain e where
        a: "res = Inl (AppError ''Failed to save comments into a file'' (Some e))"
           "trace w' = trace w5 @ [WriteFileFailed sf e]"
        by blast
      with w5 g have t: "trace w' = trace w @ GetAuthenticated # replicate k ListReviewsPage
                  @ [GetCommentsForReview r,
                     WriteFile ?sf (stringify J (case got of Some xs \<Rightarrow> xs | None \<Rightarrow> [])),
                     TimeoutNotify r 10, DeletePendingReview r]
                  @ (?posts @ [WriteFileFailed ?sf e])"
        by simp
      show ?thesis
        apply (rule exI [of _ k])
        apply (rule disjI2)+
        apply (rule exI [of _ r], rule exI [of _ got],
            rule exI [of _ "?posts @ [WriteFileFailed ?sf e]"])
        apply (intro conjI)
          apply (rule g(1))
         apply (rule t)
        apply (rule disjI2, rule disjI2)
        apply (intro exI conjI)
         apply (rule refl)
        using a apply simp
        done
    qed
  qed
qed

text \<open>The equations that evaluate the model on a scenario.\<close>

lemmas model_defs =
  main_def prepare_def replay_def fetchUser_def findReview_def getComments_def
  fetchComments_def loadComments_def saveComments_def dismissReview_def saveFile_of_def
  params_def emit_def start_def run_def report_def load_error_def show_nat.simps digit_def
  Let_def

lemmas scenario_defs =
  J0_def c10_def c11_def cfg0_def me_def pending_def approved_def github_def
  env_one_def env_two_def env_none_def env_first_def

lemma prepare_paths:
  assumes "getAuthenticated env = Inr auth"
    and "findReview c env (user_id auth) (emit GetAuthenticated w) = (Inr rid, w2)"
    and "prepare J c env w = (res, w')"
  shows "\<exists>mid. trace w' = trace w2 @ mid
           \<and> (\<forall>p x. WriteFile p x \<in> set mid \<longrightarrow> p = saveFile_of c rid)
           \<and> (\<forall>p e. WriteFileFailed p e \<in> set mid \<longrightarrow> p = saveFile_of c rid)
           \<and> (\<forall>p out. CreateComment p out \<notin> set mid)
           \<and> (\<forall>sf cs. res = Inr (sf, cs) \<longrightarrow> sf = saveFile_of c rid)"
proof -
  from assms have p:
    "(case getComments J c env rid (saveFile_of c rid) w2 of
        (Inl e, w3) \<Rightarrow> (Inl e, w3)
      | (Inr comments, w3) \<Rightarrow>
     (case dismissReview env rid w3 of
        (Inl e, w4) \<Rightarrow> (Inl e, w4)
      | (Inr u, w4) \<Rightarrow> (Inr (saveFile_of c rid, comments), w4))) = (res, w')"
    by (simp add: prepare_def fetchUser_def)
  obtain r3 w3 where g: "getComments J c env rid (saveFile_of c rid) w2 = (r3, w3)"
    by (cases "getComments J c env rid (saveFile_of c rid) w2") auto
  then have "\<exists>m1. trace w3 = trace w2 @ m1
           \<and> (\<forall>p x. WriteFile p x \<in> set m1 \<longrightarrow> p = saveFile_of c rid)
           \<and> (\<forall>p e. WriteFileFailed p e \<in> set m1 \<longrightarrow> p = saveFile_of c rid)
           \<and> (\<forall>p out. CreateComment p out \<notin> set m1)"
    by (auto simp: getComments_def fetchComments_def loadComments_def saveComments_def emit_def
          Let_def split: option.splits sum.splits if_splits)
  then obtain m1 where m1: "trace w3 = trace w2 @ m1"
    "\<forall>p x. WriteFile p x \<in> set m1 \<longrightarrow> p = saveFile_of c rid"
    "\<forall>p e. WriteFileFailed p e \<in> set m1 \<longrightarrow> p = saveFile_of c rid"
    "\<forall>p out. CreateComment p out \<notin> set m1"
    by blast
  show ?thesis
  proof (cases r3)
    case (Inl e)
    with p g have "w' = w3" "res = Inl e" by auto
    with m1 show ?thesis by auto
  next
    case (Inr cs)
    obtain r4 w4 where d: "dismissReview env rid w3 = (r4, w4)"
      by (cases "dismissReview env rid w3") auto
    then have "\<exists>m2. trace w4 = trace w3 @ m2
           \<and> (\<forall>p x. WriteFile p x \<notin> set m2)
           \<and> (\<forall>p e. WriteFileFailed p e \<notin> set m2)
           \<and> (\<forall>p out. CreateComment p out \<notin> set m2)"
      by (auto simp: dismissReview_def emit_def split: option.splits)
    then obtain m2 where m2: "trace w4 = trace w3 @ m2"
      "\<forall>p x. WriteFile p x \<notin> set m2" "\<forall>p e. WriteFileFailed p e \<notin> set m2"
      "\<forall>p out. CreateComment p out \<notin> set m2"
      by blast
    from p g d Inr have "w' = w4" "\<forall>sf cs. res = Inr (sf, cs) \<longrightarrow> sf = saveFile_of c rid"
      by (auto split: sum.splits)
    with m1 m2 show ?thesis
      by (intro exI [of _ "m1 @ m2"]) auto
  qed
qed

lemma main_paths:
  assumes "getAuthenticated env = Inr auth"
    and "findReview c env (user_id auth) (emit GetAuthenticated (start fs)) = (Inr rid, w2)"
    and "main J c env (start fs) = (res, w')"
  shows "(\<forall>p x. WriteFile p x \<in> set (trace w') \<longrightarrow> p = saveFile_of c rid)
       \<and> (\<forall>p e. WriteFileFailed p e \<in> set (trace w') \<longrightarrow> p = saveFile_of c rid)
       \<and> (res = Inr () \<longrightarrow> (\<exists>x. files w' (saveFile_of c rid) = Some x
                               \<and> last (trace w') = WriteFile (saveFile_of c rid) x))"
proof -
  obtain rp w4 where pr: "prepare J c env (start fs) = (rp, w4)"
    by (cases "prepare J c env (start fs)") auto
  from findReview_trace [OF assms(2)] obtain k where
    w2: "trace w2 = GetAuthenticated # replicate k ListReviewsPage"
    by (auto simp: emit_def start_def)
  from prepare_paths [OF assms(1,2) pr] obtain mid where mid:
    "trace w4 = trace w2 @ mid"
    "\<forall>p x. WriteFile p x \<in> set mid \<longrightarrow> p = saveFile_of c rid"
    "\<forall>p e. WriteFileFailed p e \<in> set mid \<longrightarrow> p = saveFile_of c rid"
    "\<forall>sf cs. rp = Inr (sf, cs) \<longrightarrow> sf = saveFile_of c rid"
    by blast
  from w2 mid have w4: "\<forall>p x. WriteFile p x \<in> set (trace w4) \<longrightarrow> p = saveFile_of c rid"
    "\<forall>p e. WriteFileFailed p e \<in> set (trace w4) \<longrightarrow> p = saveFile_of c rid"
    by auto
  have wa: "p = saveFile_of c rid" if "WriteFile p x \<in> set (trace w4)" for p x
    using w4(1) that by blast
  have wb: "p = saveFile_of c rid" if "WriteFileFailed p e \<in> set (trace w4)" for p e
    using w4(2) that by blast
  show ?thesis
  proof (cases rp)
    case (Inl e)
    with pr assms(3) have "w' = w4" "res = Inl e" by (auto simp: main_def)
    with w4 show ?thesis by simp
  next
    case (Inr sc)
    obtain sf cs where sc: "sc = (sf, cs)" by (cases sc) auto
    with Inr mid(4) have sf: "sf = saveFile_of c rid" by simp
    from pr Inr sc assms(3) have "replay J c env sf cs w4 = (res, w')" by (simp add: main_def)
    from replay_shape [OF this] obtain outs cs' w5 where
      w5: "w5 = w4\<lparr>trace := trace w4 @ post_events c (filter unposted cs) outs\<rparr>"
      and fin: "(res = Inr () \<and> writeFile env (trace w5) sf = None
                 \<and> w' = w4\<lparr>files := (files w4)(sf \<mapsto> stringify J cs'),
                          trace := trace w5 @ [WriteFile sf (stringify J cs')]\<rparr>)
              \<or> (\<exists>e. res = Inl (AppError ''Failed to save comments into a file'' (Some e))
                    \<and> w' = w4\<lparr>trace := trace w5 @ [WriteFileFailed sf e]\<rparr>)"
      by blast
    from fin show ?thesis
    proof
      assume "res = Inr () \<and> writeFile env (trace w5) sf = None
                 \<and> w' = w4\<lparr>files := (files w4)(sf \<mapsto> stringify J cs'),
                          trace := trace w5 @ [WriteFile sf (stringify J cs')]\<rparr>"
      with w5 sf show ?thesis by (auto dest: post_events_set wa wb)
    next
      assume "\<exists>e. res = Inl (AppError ''Failed to save comments into a file'' (Some e))
                    \<and> w' = w4\<lparr>trace := trace w5 @ [WriteFileFailed sf e]\<rparr>"
      with w5 sf show ?thesis by (auto dest: post_events_set wa wb)
    qed
  qed
qed

lemma is_attempt_post_events: "e \<in> set (post_events c us outs) \<Longrightarrow> is_attempt e"
  by (auto dest: post_events_set)

lemma prepare_no_attempts:
  assumes "prepare J c env (start fs) = (rp, w4)"
  shows "\<forall>e\<in>set (trace w4). \<not> is_attempt e"
proof (cases "getAuthenticated env")
  case (Inl e)
  with assms show ?thesis
    by (auto simp: prepare_def fetchUser_def emit_def start_def)
next
  case (Inr auth)
  obtain r2 w2 where f: "findReview c env (user_id auth) (emit GetAuthenticated (start fs)) = (r2, w2)"
    by (cases "findReview c env (user_id auth) (emit GetAuthenticated (start fs))") auto
  from findReview_trace [OF f] obtain k where
    w2: "trace w2 = GetAuthenticated # replicate k ListReviewsPage"
    by (auto simp: emit_def start_def)
  show ?thesis
  proof (cases r2)
    case (Inl e)
    with Inr f assms have "w4 = w2" by (simp add: prepare_def fetchUser_def)
    with w2 show ?thesis by auto
  next
    case rid: (Inr rid)
    from prepare_paths [OF Inr f [unfolded rid] assms] obtain mid where
      "trace w4 = trace w2 @ mid" "\<forall>p out. CreateComment p out \<notin> set mid"
      by blast
    with w2 show ?thesis
    proof (intro ballI)
      fix e assume e: "e \<in> set (trace w4)"
      show "\<not> is_attempt e"
      proof (cases e)
        case (CreateComment p out)
        with e \<open>trace w4 = trace w2 @ mid\<close> \<open>\<forall>p out. CreateComment p out \<notin> set mid\<close> w2
        show ?thesis by auto
      qed auto
    qed
  qed
qed

lemma prepare_load:
  assumes "truthy_str (load c) = Some l" and "prepare J c env w = (rp, w4)"
  shows "\<exists>k tl. trace w4 = trace w @ GetAuthenticated # replicate k ListReviewsPage @ tl
           \<and> (tl = [] \<or> tl = [ReadFile l]
               \<or> (\<exists>r. tl = [ReadFile l, TimeoutNotify r 10, DeletePendingReview r]))"
proof (cases "getAuthenticated env")
  case (Inl e)
  with assms(2) have "trace w4 = trace w @ GetAuthenticated # replicate 0 ListReviewsPage @ []"
    by (auto simp: prepare_def fetchUser_def emit_def)
  then show ?thesis by blast
next
  case (Inr auth)
  obtain r2 w2 where f: "findReview c env (user_id auth) (emit GetAuthenticated w) = (r2, w2)"
    by (cases "findReview c env (user_id auth) (emit GetAuthenticated w)") auto
  from findReview_trace [OF f] obtain k where
    w2: "w2 = w\<lparr>trace := trace w @ GetAuthenticated # replicate k ListReviewsPage\<rparr>"
    by (auto simp: emit_def)
  from assms(1) have l: "load c = Some l" "l \<noteq> []"
    by (cases "load c"; auto split: if_splits)+
  show ?thesis
  proof (cases r2)
    case (Inl e)
    with Inr f w2 assms(2)
    have "trace w4 = trace w @ GetAuthenticated # replicate k ListReviewsPage @ []"
      by (auto simp: prepare_def fetchUser_def)
    then show ?thesis by blast
  next
    case rid: (Inr rid)
    from rid Inr f w2 assms(2) l have
      "(trace w4 = trace w @ GetAuthenticated # replicate k ListReviewsPage @ [ReadFile l])
       \<or> (\<exists>r. trace w4 = trace w @ GetAuthenticated # replicate k ListReviewsPage
                  @ [ReadFile l, TimeoutNotify r 10, DeletePendingReview r])"
      by (auto simp: prepare_def fetchUser_def getComments_def loadComments_def
            dismissReview_def emit_def
            split: option.splits sum.splits if_splits)
    then show ?thesis by blast
  qed
qed

section \<open>Two runs\<close>

lemma attempts_none: "\<forall>e\<in>set es. \<not> is_attempt e \<Longrightarrow> attempts es = []"
  by (induction es rule: attempts.induct) auto

lemma saveFile_of_nonempty: "saveFile_of c rid \<noteq> []"
  by (cases "save c"; cases "load c"; cases rid) (auto simp: saveFile_of_def)

lemma prepare_sf:
  "prepare J c env w = (Inr (sf, cs), w4) \<Longrightarrow> \<exists>rid. sf = saveFile_of c rid"
  by (auto simp: prepare_def split: prod.splits sum.splits)

lemma prepare_load_comments:
  assumes "truthy_str (load c) = Some l" and "prepare J c env (start fs) = (Inr (sf, cs), w4)"
  shows "\<exists>content. fs l = Some content \<and> parse J content = Some cs"
proof -
  from assms(1) have l: "load c = Some l" "l \<noteq> []"
    by (cases "load c"; auto split: if_splits)+
  from assms(2) obtain auth rid w2 w3 where
    a: "getAuthenticated env = Inr auth"
    and f: "findReview c env (user_id auth) (emit GetAuthenticated (start fs)) = (Inr rid, w2)"
    and g: "getComments J c env rid (saveFile_of c rid) w2 = (Inr cs, w3)"
    by (auto simp: prepare_def fetchUser_def split: prod.splits sum.splits)
  from findReview_trace [OF f] have "files w2 = fs"
    by (auto simp: emit_def start_def)
  with g l show ?thesis
    by (auto simp: getComments_def loadComments_def split: option.splits)
qed

lemma main_attempts:
  fixes J :: "('a, 'f) json"
  assumes "main J c env (start fs) = (res, w')"
  shows "(isl (fst (prepare J c env (start fs))) \<and> attempts (trace w') = [])
       \<or> (\<exists>sf cs w4 outs. prepare J c env (start fs) = (Inr (sf, cs), w4)
             \<and> length outs = length (filter unposted cs)
             \<and> attempts (trace w') = zip (map (params c) (filter unposted cs)) outs)"
proof -
  obtain rp w4 where pr: "prepare J c env (start fs) = (rp, w4)"
    by (cases "prepare J c env (start fs)") auto
  from attempts_none [OF prepare_no_attempts [OF pr]] have b: "attempts (trace w4) = []" .
  show ?thesis
  proof (cases rp)
    case (Inl e)
    with pr assms have "w' = w4" by (auto simp: main_def)
    with b pr Inl show ?thesis by simp
  next
    case (Inr sc)
    obtain sf cs where sc: "sc = (sf, cs)" by (cases sc) auto
    from pr Inr sc assms have "replay J c env sf cs w4 = (res, w')" by (simp add: main_def)
    from replay_shape [OF this] obtain outs cs' where o: "length outs = length (filter unposted cs)"
      and "trace w' = trace w4 @ post_events c (filter unposted cs) outs @ [WriteFile sf (stringify J cs')]
       \<or> (\<exists>e. trace w' = trace w4 @ post_events c (filter unposted cs) outs @ [WriteFileFailed sf e])"
      by auto
    with b have "attempts (trace w') = zip (map (params c) (filter unposted cs)) outs"
      by auto
    with pr Inr sc o show ?thesis by blast
  qed
qed

lemma second_run_attempts:
  fixes J :: "('a, 'f) json"
  assumes "\<forall>xs. parse J (stringify J xs) = Some xs"
    and "load c2 = Some sf" and "sf \<noteq> []"
    and "fs1 sf = Some (stringify J cs')"
  shows "attempts (trace (snd (main J c2 env2 (start fs1)))) = []
       \<or> map fst (attempts (trace (snd (main J c2 env2 (start fs1)))))
            = map (params c2) (filter unposted cs')"
proof -
  let ?m = "main J c2 env2 (start fs1)"
  have m: "?m = (fst ?m, snd ?m)" by simp
  from assms(2,3) have l: "truthy_str (load c2) = Some sf" by simp
  from main_attempts [OF m] show ?thesis
  proof
    assume "isl (fst (prepare J c2 env2 (start fs1))) \<and> attempts (trace (snd ?m)) = []"
    then show ?thesis by simp
  next
    assume "\<exists>sf cs w4 outs. prepare J c2 env2 (start fs1) = (Inr (sf, cs), w4)
             \<and> length outs = length (filter unposted cs)
             \<and> attempts (trace (snd ?m)) = zip (map (params c2) (filter unposted cs)) outs"
    then obtain sf2 cs2 w4 outs where p: "prepare J c2 env2 (start fs1) = (Inr (sf2, cs2), w4)"
      and o: "length outs = length (filter unposted cs2)"
      and a: "attempts (trace (snd ?m)) = zip (map (params c2) (filter unposted cs2)) outs"
      by blast
    from prepare_load_comments [OF l p] assms(1,4) have "cs2 = cs'" by auto
    with a o show ?thesis by simp
  qed
qed

lemma main_completed:
  fixes J :: "('a, 'f) json"
  assumes "main J c env (start fs) = (Inr (), w1)"
  shows "\<exists>sf cs w4 cs' w5 outs. prepare J c env (start fs) = (Inr (sf, cs), w4)
           \<and> postComments c env cs w4 = (cs', w5)
           \<and> length outs = length (filter unposted cs)
           \<and> attempts (trace w5) = zip (map (params c) (filter unposted cs)) outs
           \<and> attempts (trace w1) = attempts (trace w5)
           \<and> writeFile env (trace w5) sf = None
           \<and> files w1 sf = Some (stringify J cs')
           \<and> last (trace w1) = WriteFile sf (stringify J cs')"
proof -
  obtain rp w4 where pr: "prepare J c env (start fs) = (rp, w4)"
    by (cases "prepare J c env (start fs)") auto
  from attempts_none [OF prepare_no_attempts [OF pr]] have b: "attempts (trace w4) = []" .
  from pr assms obtain sf cs where rp: "rp = Inr (sf, cs)"
    by (cases rp) (auto simp: main_def)
  with pr assms have "replay J c env sf cs w4 = (Inr (), w1)" by (simp add: main_def)
  from replay_shape [OF this] obtain outs cs' w5 where
    pc: "postComments c env cs w4 = (cs', w5)"
    and o: "length outs = length (filter unposted cs)"
    and w5: "w5 = w4\<lparr>trace := trace w4 @ post_events c (filter unposted cs) outs\<rparr>"
    and wf: "writeFile env (trace w5) sf = None"
    and w1: "w1 = w4\<lparr>files := (files w4)(sf \<mapsto> stringify J cs'),
                          trace := trace w5 @ [WriteFile sf (stringify J cs')]\<rparr>"
    by auto
  from w5 b have a5: "attempts (trace w5) = zip (map (params c) (filter unposted cs)) outs"
    by simp
  from w1 have a1: "attempts (trace w1) = attempts (trace w5)"
    "files w1 sf = Some (stringify J cs')" "last (trace w1) = WriteFile sf (stringify J cs')"
    by simp_all
  from pr rp pc o a5 a1 wf show ?thesis by blast
qed


lemma outs_of_attempts:
  assumes "length ps = length outs" and "\<forall>p n. (p, Inr n) \<in> set (zip ps outs) \<longrightarrow> n \<noteq> 0"
  shows "\<forall>n. Inr n \<in> set outs \<longrightarrow> n \<noteq> (0::nat)"
proof (intro allI impI)
  fix n :: nat
  assume "Inr n \<in> set outs"
  then obtain i where i: "i < length outs" "outs ! i = Inr n"
    by (auto simp: in_set_conv_nth)
  with assms(1) have "(ps ! i, Inr n) \<in> set (zip ps outs)"
    by (auto simp: in_set_zip intro: exI [of _ i])
  with assms(2) show "n \<noteq> 0" by blast
qed

lemma no_failures:
  assumes "length us = length outs" and "\<forall>out\<in>set outs. \<not> isl out"
  shows "filter (\<lambda>(cm, out). isl out) (zip us outs) = []"
  using assms by (auto simp: filter_empty_conv dest: set_zip_rightD)

lemma prepare_load_success:
  assumes "truthy_str (load c) = Some l" and "prepare J c env (start fs) = (Inr (sf, cs), w4)"
  shows "\<exists>content. fs l = Some content \<and> parse J content = Some cs \<and> files w4 = fs
           \<and> ReadFile l \<in> set (trace w4)"
proof -
  from assms(1) have l: "load c = Some l" "l \<noteq> []"
    by (cases "load c"; auto split: if_splits)+
  from assms(2) obtain auth rid w2 w3 u where
    a: "getAuthenticated env = Inr auth"
    and f: "findReview c env (user_id auth) (emit GetAuthenticated (start fs)) = (Inr rid, w2)"
    and g: "getComments J c env rid (saveFile_of c rid) w2 = (Inr cs, w3)"
    and d: "dismissReview env rid w3 = (Inr u, w4)"
    by (auto simp: prepare_def fetchUser_def split: prod.splits sum.splits)
  from findReview_trace [OF f] have f2: "files w2 = fs"
    by (auto simp: emit_def start_def)
  from g l f2 have g2: "\<exists>content. fs l = Some content \<and> parse J content = Some cs"
    and w3: "w3 = emit (ReadFile l) w2"
    by (auto simp: getComments_def loadComments_def split: option.splits)
  from d w3 f2 have "files w4 = fs" "ReadFile l \<in> set (trace w4)"
    by (auto simp: dismissReview_def emit_def split: option.splits)
  with g2 show ?thesis by blast
qed

section \<open>Claims\<close>

text \<open>
  C1. In a run without \<^verbatim>\<open>--load\<close>, wherever the deletion of the pending review \<open>r\<close> is
  attempted, the comments fetched for \<open>r\<close> have been written before, as they were
  fetched, to the snapshot path: the trace up to the deletion holds the successful write.
  And when the first write of the run fails, \<^verbatim>\<open>main\<close> throws
  \<^verbatim>\<open>Failed to save comments into a file\<close> with the cause, and no deletion is in the trace.
\<close>

theorem snapshot_before_deletion:
  fixes J :: "('a, 'f) json"
  assumes "load c = None" and "main J c env (start fs) = (res, w')"
  shows "(\<forall>pre r post. trace w' = pre @ DeletePendingReview r # post \<longrightarrow>
            (\<exists>got. getCommentsForReview env r = Inr got
               \<and> WriteFile (saveFile_of c (Some r))
                    (stringify J (case got of Some xs \<Rightarrow> xs | None \<Rightarrow> [])) \<in> set pre))
       \<and> (\<forall>pre p e post. trace w' = pre @ WriteFileFailed p e # post
              \<and> (\<forall>p' x. WriteFile p' x \<notin> set pre) \<longrightarrow>
            res = Inl (AppError ''Failed to save comments into a file'' (Some e))
              \<and> (\<forall>r. DeletePendingReview r \<notin> set (trace w')))"
proof -
  from main_fetch [OF assms] obtain k where shape:
    "(isl res \<and> trace w' = trace (start fs) @ GetAuthenticated # replicate k ListReviewsPage)
     \<or> (\<exists>r. isl res \<and> trace w' = trace (start fs) @ GetAuthenticated # replicate k ListReviewsPage
                  @ [GetCommentsForReview r])
     \<or> (\<exists>r e. res = Inl (AppError ''Failed to save comments into a file'' (Some e))
           \<and> trace w' = trace (start fs) @ GetAuthenticated # replicate k ListReviewsPage
                  @ [GetCommentsForReview r, WriteFileFailed (saveFile_of c (Some r)) e])
     \<or> (\<exists>r got tl. getCommentsForReview env r = Inr got
           \<and> trace w' = trace (start fs) @ GetAuthenticated # replicate k ListReviewsPage
                  @ [GetCommentsForReview r,
                     WriteFile (saveFile_of c (Some r))
                       (stringify J (case got of Some xs \<Rightarrow> xs | None \<Rightarrow> [])),
                     TimeoutNotify r 10, DeletePendingReview r] @ tl
           \<and> ((tl = [] \<and> isl res)
               \<or> (\<exists>(us :: 'a comment_scheme list) outs x.
                     tl = post_events c us outs @ [WriteFile (saveFile_of c (Some r)) x]
                     \<and> res = Inr ())
               \<or> (\<exists>(us :: 'a comment_scheme list) outs e.
                     tl = post_events c us outs @ [WriteFileFailed (saveFile_of c (Some r)) e]
                     \<and> res = Inl (AppError ''Failed to save comments into a file'' (Some e)))))"
    by blast
  then consider
    (early) "\<forall>r. DeletePendingReview r \<notin> set (trace w')"
            "\<forall>p e. WriteFileFailed p e \<notin> set (trace w')"
  | (nosave) A r e where "res = Inl (AppError ''Failed to save comments into a file'' (Some e))"
            "trace w' = A @ [WriteFileFailed (saveFile_of c (Some r)) e]"
            "\<forall>x\<in>set A. \<not> is_write_failed x" "\<forall>x\<in>set A. \<not> is_delete x"
  | (saved) A r got tl where "getCommentsForReview env r = Inr got"
            "trace w' = A @ [WriteFile (saveFile_of c (Some r))
                       (stringify J (case got of Some xs \<Rightarrow> xs | None \<Rightarrow> [])),
                     TimeoutNotify r 10, DeletePendingReview r] @ tl"
            "\<forall>x\<in>set A. \<not> is_delete x" "\<forall>x\<in>set tl. \<not> is_delete x"
            "\<forall>x\<in>set A. \<not> is_write_failed x"
            "(\<forall>x\<in>set tl. \<not> is_write_failed x)
              \<or> (\<exists>tl' e. tl = tl' @ [WriteFileFailed (saveFile_of c (Some r)) e]
                     \<and> (\<forall>x\<in>set tl'. \<not> is_write_failed x))"
  proof (elim disjE exE conjE, goal_cases)
    case 1
    then show ?case by (intro that(1)) (auto simp: start_def)
  next
    case (2 r)
    then show ?case by (intro that(1)) (auto simp: start_def)
  next
    case (3 r e)
    show ?case
      by (rule that(2) [of e "GetAuthenticated # replicate k ListReviewsPage @ [GetCommentsForReview r]" r])
         (use 3 in \<open>auto simp: start_def\<close>)
  next
    case (4 r got tl)
    show ?case
      by (rule that(3) [of r got "GetAuthenticated # replicate k ListReviewsPage @ [GetCommentsForReview r]" tl])
         (use 4 in \<open>auto simp: start_def dest: post_events_set\<close>)
  next
    case (5 r got tl us outs x)
    show ?case
      by (rule that(3) [of r got "GetAuthenticated # replicate k ListReviewsPage @ [GetCommentsForReview r]" tl])
         (use 5 in \<open>auto simp: start_def dest: post_events_set\<close>)
  next
    case (6 r got tl us outs e)
    show ?case
      by (rule that(3) [of r got "GetAuthenticated # replicate k ListReviewsPage @ [GetCommentsForReview r]" tl])
         (use 6 in \<open>auto simp: start_def dest: post_events_set\<close>)
  qed
  then show ?thesis
  proof cases
    case early
    have e1: "False" if "trace w' = pre @ WriteFileFailed p e # post" for pre p e post
      using early(2) that by (metis in_set_conv_decomp)
    have e2: "False" if "trace w' = pre @ DeletePendingReview r # post" for pre r post
      using early(1) that by (metis in_set_conv_decomp)
    show ?thesis
    proof (rule conjI; intro allI impI)
      fix pre r post
      assume "trace w' = pre @ DeletePendingReview r # post"
      from e2 [OF this] show "\<exists>got. getCommentsForReview env r = Inr got
               \<and> WriteFile (saveFile_of c (Some r))
                    (stringify J (case got of Some xs \<Rightarrow> xs | None \<Rightarrow> [])) \<in> set pre" ..
    next
      fix pre p e post
      assume "trace w' = pre @ WriteFileFailed p e # post
              \<and> (\<forall>p' x. WriteFile p' x \<notin> set pre)"
      then have "trace w' = pre @ WriteFileFailed p e # post" ..
      from e1 [OF this] show "res = Inl (AppError ''Failed to save comments into a file'' (Some e))
              \<and> (\<forall>r. DeletePendingReview r \<notin> set (trace w'))" ..
    qed
  next
    case (nosave A r e)
    have sp: "pre = A \<and> WriteFileFailed p e' = WriteFileFailed (saveFile_of c (Some r)) e \<and> post = []"
      if "trace w' = pre @ WriteFileFailed p e' # post" for pre p e' post
      using split_unique [where P = "is_write_failed :: 'f event \<Rightarrow> bool" and A = A and B = "[]"
          and y = "WriteFileFailed p e'" and d = "WriteFileFailed (saveFile_of c (Some r)) e"
          and pre = pre and post = post] nosave that
      by auto
    have p2: "e' = e" if "trace w' = pre @ WriteFileFailed p e' # post" for pre p e' post
      using sp [OF that] by simp
    have nodel: "DeletePendingReview r' \<notin> set (trace w')" for r'
      using nosave(2,4) by (auto simp: is_delete_iff)
    have p1: "False" if "trace w' = pre @ DeletePendingReview r' # post" for pre r' post
      using nodel [of r'] that by simp
    show ?thesis
    proof (rule conjI; intro allI impI)
      fix pre r post
      assume "trace w' = pre @ DeletePendingReview r # post"
      from p1 [OF this] show "\<exists>got. getCommentsForReview env r = Inr got
               \<and> WriteFile (saveFile_of c (Some r))
                    (stringify J (case got of Some xs \<Rightarrow> xs | None \<Rightarrow> [])) \<in> set pre" ..
    next
      fix pre p e' post
      assume "trace w' = pre @ WriteFileFailed p e' # post
              \<and> (\<forall>p' x. WriteFile p' x \<notin> set pre)"
      then have "trace w' = pre @ WriteFileFailed p e' # post" ..
      from p2 [OF this] nosave(1) nodel
      show "res = Inl (AppError ''Failed to save comments into a file'' (Some e'))
              \<and> (\<forall>r. DeletePendingReview r \<notin> set (trace w'))"
        by simp
    qed
  next
    case (saved A r got tl)
    let ?wf = "WriteFile (saveFile_of c (Some r))
                       (stringify J (case got of Some xs \<Rightarrow> xs | None \<Rightarrow> []))"
    have t: "trace w' = (A @ [?wf, TimeoutNotify r 10]) @ DeletePendingReview r # tl"
      using saved(2) by simp
    have a: "pre = A @ [?wf, TimeoutNotify r 10] \<and> r' = r"
      if "trace w' = pre @ DeletePendingReview r' # post" for pre r' post
      using split_unique [where P = "is_delete :: 'f event \<Rightarrow> bool"
          and A = "A @ [?wf, TimeoutNotify r 10]" and B = tl
          and y = "DeletePendingReview r'" and d = "DeletePendingReview r"
          and pre = pre and post = post] saved(3,4) t that
      by simp
    have p1: "\<exists>got. getCommentsForReview env r' = Inr got
               \<and> WriteFile (saveFile_of c (Some r'))
                    (stringify J (case got of Some xs \<Rightarrow> xs | None \<Rightarrow> [])) \<in> set pre"
      if "trace w' = pre @ DeletePendingReview r' # post" for pre r' post
    proof -
      from a [OF that] have "pre = A @ [?wf, TimeoutNotify r 10]" "r' = r" by simp_all
      with saved(1) show ?thesis by auto
    qed
    have b: "?wf \<in> set pre"
      if "trace w' = pre @ WriteFileFailed p e' # post" for pre p e' post
    proof -
      from that have "WriteFileFailed p e' \<in> set (trace w')" by simp
      with saved(2,5) have "WriteFileFailed p e' \<in> set tl"
        by (auto simp: is_write_failed_iff)
      with saved(6) obtain tl' e where tl: "tl = tl' @ [WriteFileFailed (saveFile_of c (Some r)) e]"
        "\<forall>x\<in>set tl'. \<not> is_write_failed x"
        by (auto simp: is_write_failed_iff)
      let ?A = "A @ [?wf, TimeoutNotify r 10, DeletePendingReview r] @ tl'"
      have t2: "trace w' = ?A @ WriteFileFailed (saveFile_of c (Some r)) e # []"
        using saved(2) tl by simp
      have "\<forall>x\<in>set ?A. \<not> is_write_failed x"
        using saved(5) tl(2) by auto
      with split_unique [where P = "is_write_failed :: 'f event \<Rightarrow> bool"
          and A = ?A and B = "[]"
          and y = "WriteFileFailed p e'" and d = "WriteFileFailed (saveFile_of c (Some r)) e"
          and pre = pre and post = post] t2 that
      have "pre = ?A" by simp
      then show ?thesis by simp
    qed
    have p2: "False"
      if "trace w' = pre @ WriteFileFailed p e' # post" "\<forall>p' x. WriteFile p' x \<notin> set pre"
      for pre p e' post
      using b [OF that(1)] that(2) by simp
    show ?thesis
    proof (rule conjI; intro allI impI)
      fix pre r' post
      assume "trace w' = pre @ DeletePendingReview r' # post"
      then show "\<exists>got. getCommentsForReview env r' = Inr got
               \<and> WriteFile (saveFile_of c (Some r'))
                    (stringify J (case got of Some xs \<Rightarrow> xs | None \<Rightarrow> [])) \<in> set pre"
        by (rule p1)
    next
      fix pre p e' post
      assume h: "trace w' = pre @ WriteFileFailed p e' # post
              \<and> (\<forall>p' x. WriteFile p' x \<notin> set pre)"
      then have "trace w' = pre @ WriteFileFailed p e' # post"
        and "\<forall>p' x. WriteFile p' x \<notin> set pre" by simp_all
      from p2 [OF this] show "res = Inl (AppError ''Failed to save comments into a file'' (Some e'))
              \<and> (\<forall>r. DeletePendingReview r \<notin> set (trace w'))" ..
    qed
  qed
qed

theorem snapshot_before_deletion_witness:
  "load cfg0 = None
   \<and> trace (snd (main J0 cfg0 env_one (start Map.empty))) =
       [GetAuthenticated, ListReviewsPage, GetCommentsForReview 555,
        WriteFile ''org_repo_1234_555.json'' [c10, c11], TimeoutNotify 555 10]
       @ DeletePendingReview 555
       # [CreateComment (params cfg0 c10) (Inr 106), CreateComment (params cfg0 c11) (Inr 107),
          WriteFile ''org_repo_1234_555.json''
            [c10\<lparr>new_id := Some 106\<rparr>, c11\<lparr>new_id := Some 107\<rparr>]]
   \<and> (\<exists>got. getCommentsForReview env_one 555 = Inr got
         \<and> WriteFile (saveFile_of cfg0 (Some 555))
              (stringify J0 (case got of Some xs \<Rightarrow> xs | None \<Rightarrow> []))
            \<in> set [GetAuthenticated, ListReviewsPage, GetCommentsForReview 555,
                   WriteFile ''org_repo_1234_555.json'' [c10, c11], TimeoutNotify 555 10])
   \<and> trace (snd (main J0 cfg0 env_nowrite (start Map.empty))) =
       [GetAuthenticated, ListReviewsPage, GetCommentsForReview 555]
       @ WriteFileFailed ''org_repo_1234_555.json'' (Thrown ''EACCES'') # []
   \<and> fst (main J0 cfg0 env_nowrite (start Map.empty)) =
       Inl (AppError ''Failed to save comments into a file'' (Some (Thrown ''EACCES'')))
   \<and> (\<forall>r. DeletePendingReview r
          \<notin> set (trace (snd (main J0 cfg0 env_nowrite (start Map.empty)))))"
proof -
  let ?m1 = "main J0 cfg0 env_one (start Map.empty)"
  let ?m2 = "main J0 cfg0 env_nowrite (start Map.empty)"
  have a: "load cfg0 = None"
    by (simp add: cfg0_def)
  have b1: "?m1 = (fst ?m1, snd ?m1)" and b2: "?m2 = (fst ?m2, snd ?m2)"
    by simp_all
  have t1: "trace (snd ?m1) =
       [GetAuthenticated, ListReviewsPage, GetCommentsForReview 555,
        WriteFile ''org_repo_1234_555.json'' [c10, c11], TimeoutNotify 555 10]
       @ DeletePendingReview 555
       # [CreateComment (params cfg0 c10) (Inr 106), CreateComment (params cfg0 c11) (Inr 107),
          WriteFile ''org_repo_1234_555.json''
            [c10\<lparr>new_id := Some 106\<rparr>, c11\<lparr>new_id := Some 107\<rparr>]]"
    by (simp add: model_defs scenario_defs)
  have t2: "trace (snd ?m2) =
       [GetAuthenticated, ListReviewsPage, GetCommentsForReview 555]
       @ WriteFileFailed ''org_repo_1234_555.json'' (Thrown ''EACCES'') # []"
    by (simp add: model_defs scenario_defs env_nowrite_def)
  have n2: "\<forall>p' x. WriteFile p' x
      \<notin> set [GetAuthenticated, ListReviewsPage, GetCommentsForReview 555 :: comment list event]"
    by simp
  from conjunct1 [OF snapshot_before_deletion [OF a b1]] t1
  have c1: "\<exists>got. getCommentsForReview env_one 555 = Inr got
         \<and> WriteFile (saveFile_of cfg0 (Some 555))
              (stringify J0 (case got of Some xs \<Rightarrow> xs | None \<Rightarrow> []))
            \<in> set [GetAuthenticated, ListReviewsPage, GetCommentsForReview 555,
                   WriteFile ''org_repo_1234_555.json'' [c10, c11], TimeoutNotify 555 10]"
    by (elim allE impE) assumption+
  from conjunct2 [OF snapshot_before_deletion [OF a b2], rule_format, OF conjI [OF t2 n2]]
  have c2: "fst ?m2 = Inl (AppError ''Failed to save comments into a file'' (Some (Thrown ''EACCES'')))
       \<and> (\<forall>r. DeletePendingReview r \<notin> set (trace (snd ?m2)))"
    by simp
  from a t1 c1 t2 c2 show ?thesis by (intro conjI) (erule conjunct1 conjunct2 | assumption)+
qed

text \<open>
  C2. Let a first run complete, every call of \<^verbatim>\<open>pulls.createComment\<close> in it having answered
  with an id (an id of GitHub, so not 0), and let a second run load the file the first one
  wrote last. Then the second run makes no call of \<^verbatim>\<open>pulls.createComment\<close>, whatever GitHub
  answers in it. In general the loop calls \<^verbatim>\<open>pulls.createComment\<close> for the comments with a
  falsy \<^verbatim>\<open>new_id\<close>, in order, and for no other. \<^verbatim>\<open>JSON.parse\<close> is taken to invert
  \<^verbatim>\<open>JSON.stringify\<close>.
\<close>

theorem replay_twice_posts_nothing:
  fixes J :: "('a, 'f) json"
  assumes "\<forall>xs. parse J (stringify J xs) = Some xs"
    and "main J c env (start fs) = (Inr (), w1)"
    and "\<forall>p out. (p, out) \<in> set (attempts (trace w1)) \<longrightarrow> (\<exists>n. out = Inr n \<and> n \<noteq> 0)"
    and "last (trace w1) = WriteFile sf content"
    and "load c2 = Some sf"
  shows "attempts (trace (snd (main J c2 env2 (start (files w1))))) = []
       \<and> (\<forall>(xs :: 'a comment_scheme list) (w :: 'f world).
             map fst (attempts (trace (snd (postComments c env xs w))))
               = map fst (attempts (trace w)) @ map (params c) (filter unposted xs))"
proof -
  from main_completed [OF assms(2)] obtain sf' cs w4 cs' w5 where
    pr: "prepare J c env (start fs) = (Inr (sf', cs), w4)"
    and pc: "postComments c env cs w4 = (cs', w5)"
    and a1: "attempts (trace w1) = attempts (trace w5)"
    and f: "files w1 sf' = Some (stringify J cs')"
    and la: "last (trace w1) = WriteFile sf' (stringify J cs')"
    by blast
  from la assms(4) have sf: "sf' = sf" by simp
  let ?us = "filter unposted cs"
  from attempts_none [OF prepare_no_attempts [OF pr]] have b: "attempts (trace w4) = []" .
  from postComments_effect [OF pc] obtain outs where
    o: "length outs = length ?us"
    and w5: "w5 = w4\<lparr>trace := trace w4 @ post_events c ?us outs\<rparr>"
    and cond: "(\<forall>n. Inr n \<in> set outs \<longrightarrow> n \<noteq> 0) \<longrightarrow>
            filter unposted cs' = map fst (filter (\<lambda>(cm, out). isl out) (zip ?us outs))"
    by blast
  from w5 b have a5: "attempts (trace w5) = zip (map (params c) ?us) outs" by simp
  have h: "\<forall>p out. (p, out) \<in> set (zip (map (params c) ?us) outs)
             \<longrightarrow> (\<exists>n. out = Inr n \<and> n \<noteq> 0)"
    using assms(3) unfolding a1 a5 .
  have ok: "\<exists>n. out = Inr n \<and> n \<noteq> 0" if "out \<in> set outs" for out
  proof -
    from that obtain i where i: "i < length outs" "outs ! i = out"
      by (auto simp: in_set_conv_nth)
    with o have "(map (params c) ?us ! i, out) \<in> set (zip (map (params c) ?us) outs)"
      by (auto simp: in_set_zip intro: exI [of _ i])
    then show ?thesis by (rule h [rule_format])
  qed
  then have nz: "\<forall>n. Inr n \<in> set outs \<longrightarrow> n \<noteq> 0" and nf: "\<forall>out\<in>set outs. \<not> isl out"
    by fastforce+
  from no_failures [OF o [symmetric] nf] cond nz have e: "filter unposted cs' = []"
    by simp
  from prepare_sf [OF pr] sf have ne: "sf \<noteq> []"
    by (auto simp: saveFile_of_nonempty)
  from f sf have f': "files w1 sf = Some (stringify J cs')" by simp
  from second_run_attempts [where J = J and ?c2.0 = c2 and sf = sf
      and ?fs1.0 = "files w1" and cs' = cs' and ?env2.0 = env2, OF assms(1,5) ne f'] e
  have p1: "attempts (trace (snd (main J c2 env2 (start (files w1))))) = []"
    by auto
  have p2: "map fst (attempts (trace (snd (postComments c env xs w))))
               = map fst (attempts (trace w)) @ map (params c) (filter unposted xs)"
    for xs :: "'a comment_scheme list" and w :: "'f world"
  proof (cases "postComments c env xs w")
    case (Pair xs' w')
    from postComments_effect [OF Pair] obtain outs where
      "length outs = length (filter unposted xs)"
      "w' = w\<lparr>trace := trace w @ post_events c (filter unposted xs) outs\<rparr>"
      by blast
    with Pair show ?thesis by simp
  qed
  from p1 p2 show ?thesis by blast
qed

theorem replay_twice_posts_nothing_witness:
  "fst (main J0 cfg0 env_one (start Map.empty)) = Inr ()
   \<and> attempts (trace (snd (main J0 cfg0 env_one (start Map.empty)))) =
       [(params cfg0 c10, Inr 106), (params cfg0 c11, Inr 107)]
   \<and> load cfg_again = Some ''org_repo_1234_555.json''
   \<and> fst (main J0 cfg_again env_none
            (start (files (snd (main J0 cfg0 env_one (start Map.empty)))))) = Inr ()
   \<and> attempts (trace (snd (main J0 cfg_again env_none
            (start (files (snd (main J0 cfg0 env_one (start Map.empty)))))))) = []"
proof -
  let ?m = "main J0 cfg0 env_one (start Map.empty)"
  let ?sf = "''org_repo_1234_555.json''"
  have a: "\<forall>xs. parse J0 (stringify J0 xs) = Some xs"
    by (simp add: J0_def)
  have r: "fst ?m = Inr ()"
    by (simp add: model_defs scenario_defs)
  then have b: "?m = (Inr (), snd ?m)"
    by (metis prod.collapse)
  have t: "trace (snd ?m) =
       [GetAuthenticated, ListReviewsPage, GetCommentsForReview 555,
        WriteFile ?sf [c10, c11], TimeoutNotify 555 10, DeletePendingReview 555,
        CreateComment (params cfg0 c10) (Inr 106), CreateComment (params cfg0 c11) (Inr 107),
        WriteFile ?sf [c10\<lparr>new_id := Some 106\<rparr>, c11\<lparr>new_id := Some 107\<rparr>]]"
    by (simp add: model_defs scenario_defs)
  have at: "attempts (trace (snd ?m)) = [(params cfg0 c10, Inr 106), (params cfg0 c11, Inr 107)]"
    unfolding t by simp
  have c: "\<forall>p out. (p, out) \<in> set (attempts (trace (snd ?m))) \<longrightarrow> (\<exists>n. out = Inr n \<and> n \<noteq> 0)"
    unfolding at by auto
  have d: "last (trace (snd ?m)) =
      WriteFile ?sf [c10\<lparr>new_id := Some 106\<rparr>, c11\<lparr>new_id := Some 107\<rparr>]"
    unfolding t by simp
  have e: "load cfg_again = Some ?sf"
    by (simp add: cfg_again_def)
  have f: "files (snd ?m) = [?sf \<mapsto> [c10\<lparr>new_id := Some 106\<rparr>, c11\<lparr>new_id := Some 107\<rparr>]]"
    by (simp add: model_defs scenario_defs)
  have g: "fst (main J0 cfg_again env_none (start (files (snd ?m)))) = Inr ()"
    unfolding f by (simp add: model_defs scenario_defs cfg_again_def)
  from replay_twice_posts_nothing [OF a b c d e, of env_none]
  have h: "attempts (trace (snd (main J0 cfg_again env_none (start (files (snd ?m)))))) = []"
    by (rule conjunct1)
  from r at e g h show ?thesis
    by (intro conjI)
qed

text \<open>
  C3. Let a run reach the replay with the comments \<open>cs\<close>, and let the final write succeed.
  Whatever the calls of \<^verbatim>\<open>pulls.createComment\<close> answer, every comment with a falsy \<^verbatim>\<open>new_id\<close>
  is attempted, in order; \<^verbatim>\<open>run\<close> ends with exit code 0; the comments left with a falsy
  \<^verbatim>\<open>new_id\<close> are those whose call failed, unchanged (ids of GitHub are not 0); the file
  holds the updated list; and a second run that loads this file either stops before the
  replay or attempts exactly the comments that failed.
\<close>

theorem failed_post_is_not_fatal:
  fixes J :: "('a, 'f) json"
  assumes "\<forall>xs. parse J (stringify J xs) = Some xs"
    and "prepare J c env (start fs) = (Inr (sf, cs), w4)"
    and "postComments c env cs w4 = (cs', w5)"
    and "writeFile env (trace w5) sf = None"
    and "\<forall>p n. (p, Inr n) \<in> set (attempts (trace w5)) \<longrightarrow> n \<noteq> 0"
    and "load c2 = Some sf"
  shows "map fst (attempts (trace w5)) = map (params c) (filter unposted cs)
       \<and> filter unposted cs'
           = map fst (filter (\<lambda>(cm, out). isl out)
                        (zip (filter unposted cs) (map snd (attempts (trace w5)))))
       \<and> fst (run J c env (start fs)) = 0
       \<and> files (snd (main J c env (start fs))) sf = Some (stringify J cs')
       \<and> (attempts (trace (snd (main J c2 env2 (start (files (snd (main J c env (start fs)))))))) = []
          \<or> map fst (attempts (trace (snd (main J c2 env2
                        (start (files (snd (main J c env (start fs))))))))) 
               = map (params c2) (filter unposted cs'))"
proof -
  let ?us = "filter unposted cs"
  from attempts_none [OF prepare_no_attempts [OF assms(2)]] have b: "attempts (trace w4) = []" .
  from postComments_effect [OF assms(3)] obtain outs where
    o: "length outs = length ?us"
    and w5: "w5 = w4\<lparr>trace := trace w4 @ post_events c ?us outs\<rparr>"
    and cond: "(\<forall>n. Inr n \<in> set outs \<longrightarrow> n \<noteq> 0) \<longrightarrow>
            filter unposted cs' = map fst (filter (\<lambda>(cm, out). isl out) (zip ?us outs))"
    by blast
  from w5 b have a5: "attempts (trace w5) = zip (map (params c) ?us) outs" by simp
  with o have p1: "map fst (attempts (trace w5)) = map (params c) ?us"
    and so: "map snd (attempts (trace w5)) = outs"
    by simp_all
  from o have "length (map (params c) ?us) = length outs" by simp
  from outs_of_attempts [OF this] assms(5) a5 have "\<forall>n. Inr n \<in> set outs \<longrightarrow> n \<noteq> 0"
    by simp
  with cond so have p2: "filter unposted cs'
           = map fst (filter (\<lambda>(cm, out). isl out) (zip ?us (map snd (attempts (trace w5)))))"
    by simp
  from assms(2,3,4) have m: "main J c env (start fs) =
      (Inr (), emit (WriteFile sf (stringify J cs')) (w5\<lparr>files := (files w5)(sf \<mapsto> stringify J cs')\<rparr>))"
    by (simp add: main_def replay_def saveComments_def)
  then have p3: "fst (run J c env (start fs)) = 0"
    by (simp add: run_def)
  from m have p4: "files (snd (main J c env (start fs))) sf = Some (stringify J cs')"
    by (simp add: emit_def)
  from prepare_sf [OF assms(2)] have ne: "sf \<noteq> []"
    by (auto simp: saveFile_of_nonempty)
  note p5 = second_run_attempts [where J = J and ?c2.0 = c2 and sf = sf
      and ?fs1.0 = "files (snd (main J c env (start fs)))" and cs' = cs' and ?env2.0 = env2,
      OF assms(1,6) ne p4]
  from p1 p2 p3 p4 p5 show ?thesis
    by (intro conjI)
qed

theorem failed_post_is_not_fatal_witness:
  "fst (prepare J0 cfg0 env_flaky (start Map.empty)) = Inr (''org_repo_1234_555.json'', [c10, c11])
   \<and> attempts (trace (snd (main J0 cfg0 env_flaky (start Map.empty)))) =
       [(params cfg0 c10, Inl (Thrown ''502'')), (params cfg0 c11, Inr 107)]
   \<and> fst (run J0 cfg0 env_flaky (start Map.empty)) = 0
   \<and> files (snd (main J0 cfg0 env_flaky (start Map.empty))) ''org_repo_1234_555.json''
       = Some [c10, c11\<lparr>new_id := Some 107\<rparr>]
   \<and> load cfg_again = Some ''org_repo_1234_555.json''
   \<and> attempts (trace (snd (main J0 cfg_again env_none
            (start (files (snd (main J0 cfg0 env_flaky (start Map.empty)))))))) =
       [(params cfg_again c10, Inr 103)]"
proof -
  let ?p = "prepare J0 cfg0 env_flaky (start Map.empty)"
  let ?m = "main J0 cfg0 env_flaky (start Map.empty)"
  let ?sf = "''org_repo_1234_555.json''"
  let ?pc = "postComments cfg0 env_flaky [c10, c11] (snd ?p)"
  have a: "\<forall>xs. parse J0 (stringify J0 xs) = Some xs"
    by (simp add: J0_def)
  have p: "fst ?p = Inr (?sf, [c10, c11])"
    by (simp add: model_defs scenario_defs env_flaky_def)
  then have b: "?p = (Inr (?sf, [c10, c11]), snd ?p)"
    by (metis prod.collapse)
  have c: "?pc = (fst ?pc, snd ?pc)"
    by simp
  have cs': "fst ?pc = [c10, c11\<lparr>new_id := Some 107\<rparr>]"
    by (simp add: model_defs scenario_defs env_flaky_def)
  have t5: "trace (snd ?pc) =
       [GetAuthenticated, ListReviewsPage, GetCommentsForReview 555,
        WriteFile ?sf [c10, c11], TimeoutNotify 555 10, DeletePendingReview 555,
        CreateComment (params cfg0 c10) (Inl (Thrown ''502'')),
        CreateComment (params cfg0 c11) (Inr 107)]"
    by (simp add: model_defs scenario_defs env_flaky_def)
  have d: "writeFile env_flaky (trace (snd ?pc)) ?sf = None"
    by (simp add: env_flaky_def github_def)
  have e: "\<forall>p n. (p, Inr n) \<in> set (attempts (trace (snd ?pc))) \<longrightarrow> n \<noteq> 0"
    unfolding t5 by auto
  have f: "load cfg_again = Some ?sf"
    by (simp add: cfg_again_def)
  note th = failed_post_is_not_fatal [OF a b c d e f, of env_none]
  from th have r: "fst (run J0 cfg0 env_flaky (start Map.empty)) = 0"
    by (elim conjE)
  from th cs' have fl: "files (snd ?m) ?sf = Some [c10, c11\<lparr>new_id := Some 107\<rparr>]"
    by (simp add: J0_def)
  have at: "attempts (trace (snd ?m)) =
       [(params cfg0 c10, Inl (Thrown ''502'')), (params cfg0 c11, Inr 107)]"
    by (simp add: model_defs scenario_defs env_flaky_def)
  have fs: "files (snd ?m) = [?sf \<mapsto> [c10, c11\<lparr>new_id := Some 107\<rparr>]]"
    by (simp add: model_defs scenario_defs env_flaky_def)
  have at2: "attempts (trace (snd (main J0 cfg_again env_none (start (files (snd ?m)))))) =
       [(params cfg_again c10, Inr 103)]"
    unfolding fs by (simp add: model_defs scenario_defs cfg_again_def)
  from p at r fl f at2 show ?thesis
    by (intro conjI)
qed

text \<open>
  C4. When the reviews listed hold two or more pending reviews of the caller, \<^verbatim>\<open>main\<close> ends
  with an error, and all it has done is to ask for the caller's identity and for pages of
  reviews: no file is written, the files are as they were, nothing is deleted or posted.
  The second match is found on whatever page it is, since the loop does not stop at the
  first one: whenever the listing ends without an error, every page has been requested.
\<close>

theorem two_pending_reviews_fatal:
  assumes "getAuthenticated env = Inr auth"
    and "2 \<le> length (pending_of (user_id auth) (listed (listReviews env)))"
  shows "(\<exists>e k. main J c env (start fs) =
            (Inl e, \<lparr>files = fs, trace = GetAuthenticated # replicate (Suc k) ListReviewsPage\<rparr>))
         \<and> (\<forall>env' u w rid w'. findReview c env' u w = (Inr rid, w') \<longrightarrow>
               w' = w\<lparr>trace := trace w @ replicate (length (listReviews env')) ListReviewsPage\<rparr>)"
proof -
  from two_pending_no_review [OF assms(2), of c "emit GetAuthenticated (start fs)"]
  obtain e0 k where "findReview c env (user_id auth) (emit GetAuthenticated (start fs)) =
      (Inl (AppError (''Failed to fetch list of reviews for PR '' @ show_nat (pr c)) (Some e0)),
       (emit GetAuthenticated (start fs))\<lparr>trace := trace (emit GetAuthenticated (start fs))
            @ replicate (Suc k) ListReviewsPage\<rparr>)"
    by blast
  with assms(1) have "\<exists>e k. main J c env (start fs) =
            (Inl e, \<lparr>files = fs, trace = GetAuthenticated # replicate (Suc k) ListReviewsPage\<rparr>)"
    by (simp add: main_def prepare_def fetchUser_def emit_def start_def)
  moreover have "\<forall>env' u w rid w'. findReview c env' u w = (Inr rid, w') \<longrightarrow>
               w' = w\<lparr>trace := trace w @ replicate (length (listReviews env')) ListReviewsPage\<rparr>"
    using findReview_Inr scan_pages_Inr by blast
  ultimately show ?thesis by blast
qed

theorem two_pending_reviews_fatal_witness:
  "(\<exists>e k. main J0 cfg0 env_two (start Map.empty) =
      (Inl e, \<lparr>files = Map.empty, trace = GetAuthenticated # replicate (Suc k) ListReviewsPage\<rparr>))
   \<and> findReview cfg0 env_first 7 (start Map.empty) =
       (Inr (Some 555),
        \<lparr>files = Map.empty, trace = [ListReviewsPage, ListReviewsPage, ListReviewsPage]\<rparr>)"
proof -
  have a: "getAuthenticated env_two = Inr me"
    by (simp add: env_two_def github_def)
  have b: "2 \<le> length (pending_of (user_id me) (listed (listReviews env_two)))"
    by (simp add: env_two_def github_def pending_def approved_def me_def is_pending_of_def)
  have c: "findReview cfg0 env_first 7 (start Map.empty) =
       (Inr (Some 555),
        \<lparr>files = Map.empty, trace = [ListReviewsPage, ListReviewsPage, ListReviewsPage]\<rparr>)"
    by (simp add: findReview_def env_first_def github_def pending_def approved_def start_def
          emit_def)
  from conjunct1 [OF two_pending_reviews_fatal [OF a b, of J0 cfg0 Map.empty]] c
  show ?thesis
    by (rule conjI)
qed

text \<open>
  C5, as stated, fails: in the scenario of the specification both comments are posted one
  after the other and no file is written between the two calls.
\<close>

theorem not_saved_after_every_attempt:
  "\<not> saved_after_every_attempt (trace (snd (main J0 cfg0 env_one (start Map.empty))))"
  by (simp add: model_defs scenario_defs)

text \<open>
  C5, amended. The trace of every run is: events that are no calls of
  \<^verbatim>\<open>pulls.createComment\<close>, then all the calls of the replay with nothing between them, then
  at most one event, the write of \<^verbatim>\<open>saveComments\<close> that ends the run. So the snapshot is
  written again once, after the whole pass, and not during it.
\<close>

theorem resaved_once_after_the_pass:
  fixes J :: "('a, 'f) json"
  assumes "main J c env (start fs) = (res, w')"
  shows "\<exists>before posts after. trace w' = before @ posts @ after
           \<and> (\<forall>e\<in>set before. \<not> is_attempt e)
           \<and> (\<forall>e\<in>set posts. is_attempt e)
           \<and> ((after = [] \<and> posts = [] \<and> isl res)
              \<or> (\<exists>sf x. after = [WriteFile sf x] \<and> res = Inr ())
              \<or> (\<exists>sf e. after = [WriteFileFailed sf e]
                    \<and> res = Inl (AppError ''Failed to save comments into a file'' (Some e))))"
proof -
  obtain rp w4 where pr: "prepare J c env (start fs) = (rp, w4)"
    by (cases "prepare J c env (start fs)") auto
  note b = prepare_no_attempts [OF pr]
  show ?thesis
  proof (cases rp)
    case (Inl e)
    with pr assms have "w' = w4" "res = Inl e" by (auto simp: main_def)
    with b show ?thesis
      by (intro exI [of _ "trace w4"] exI [of _ "[]"]) simp
  next
    case (Inr sc)
    obtain sf cs where sc: "sc = (sf, cs)" by (cases sc) auto
    from pr Inr sc assms have "replay J c env sf cs w4 = (res, w')" by (simp add: main_def)
    from replay_shape [OF this] obtain outs cs' w5 where
      w5: "w5 = w4\<lparr>trace := trace w4 @ post_events c (filter unposted cs) outs\<rparr>"
      and fin: "(res = Inr () \<and> writeFile env (trace w5) sf = None
                 \<and> w' = w4\<lparr>files := (files w4)(sf \<mapsto> stringify J cs'),
                          trace := trace w5 @ [WriteFile sf (stringify J cs')]\<rparr>)
              \<or> (\<exists>e. res = Inl (AppError ''Failed to save comments into a file'' (Some e))
                    \<and> w' = w4\<lparr>trace := trace w5 @ [WriteFileFailed sf e]\<rparr>)"
      by blast
    let ?posts = "post_events c (filter unposted cs) outs :: 'f event list"
    have p: "\<forall>e\<in>set ?posts. is_attempt e"
      by (auto dest: is_attempt_post_events)
    from fin show ?thesis
    proof
      assume a: "res = Inr () \<and> writeFile env (trace w5) sf = None
                 \<and> w' = w4\<lparr>files := (files w4)(sf \<mapsto> stringify J cs'),
                          trace := trace w5 @ [WriteFile sf (stringify J cs')]\<rparr>"
      with w5 have "trace w' = trace w4 @ ?posts @ [WriteFile sf (stringify J cs')]" by simp
      with a b p show ?thesis
        by (intro exI [of _ "trace w4"] exI [of _ ?posts]
              exI [of _ "[WriteFile sf (stringify J cs')]"]) simp
    next
      assume "\<exists>e. res = Inl (AppError ''Failed to save comments into a file'' (Some e))
                    \<and> w' = w4\<lparr>trace := trace w5 @ [WriteFileFailed sf e]\<rparr>"
      then obtain e where a: "res = Inl (AppError ''Failed to save comments into a file'' (Some e))"
        "w' = w4\<lparr>trace := trace w5 @ [WriteFileFailed sf e]\<rparr>" by blast
      with w5 have "trace w' = trace w4 @ ?posts @ [WriteFileFailed sf e]" by simp
      with a b p show ?thesis
        by (intro exI [of _ "trace w4"] exI [of _ ?posts]
              exI [of _ "[WriteFileFailed sf e]"]) simp
    qed
  qed
qed

theorem resaved_once_after_the_pass_witness:
  "trace (snd (main J0 cfg0 env_one (start Map.empty))) =
       [GetAuthenticated, ListReviewsPage, GetCommentsForReview 555,
        WriteFile ''org_repo_1234_555.json'' [c10, c11], TimeoutNotify 555 10,
        DeletePendingReview 555,
        CreateComment (params cfg0 c10) (Inr 106), CreateComment (params cfg0 c11) (Inr 107),
        WriteFile ''org_repo_1234_555.json''
          [c10\<lparr>new_id := Some 106\<rparr>, c11\<lparr>new_id := Some 107\<rparr>]]
   \<and> (\<exists>before posts after.
         trace (snd (main J0 cfg0 env_one (start Map.empty))) = before @ posts @ after
           \<and> (\<forall>e\<in>set before. \<not> is_attempt e)
           \<and> (\<forall>e\<in>set posts. is_attempt e)
           \<and> ((after = [] \<and> posts = [] \<and> isl (fst (main J0 cfg0 env_one (start Map.empty))))
              \<or> (\<exists>sf x. after = [WriteFile sf x]
                    \<and> fst (main J0 cfg0 env_one (start Map.empty)) = Inr ())
              \<or> (\<exists>sf e. after = [WriteFileFailed sf e]
                    \<and> fst (main J0 cfg0 env_one (start Map.empty)) =
                        Inl (AppError ''Failed to save comments into a file'' (Some e)))))"
proof -
  let ?m = "main J0 cfg0 env_one (start Map.empty)"
  have f: "?m = (fst ?m, snd ?m)"
    by simp
  have t: "trace (snd ?m) =
       [GetAuthenticated, ListReviewsPage, GetCommentsForReview 555,
        WriteFile ''org_repo_1234_555.json'' [c10, c11], TimeoutNotify 555 10,
        DeletePendingReview 555,
        CreateComment (params cfg0 c10) (Inr 106), CreateComment (params cfg0 c11) (Inr 107),
        WriteFile ''org_repo_1234_555.json''
          [c10\<lparr>new_id := Some 106\<rparr>, c11\<lparr>new_id := Some 107\<rparr>]]"
    by (simp add: model_defs scenario_defs)
  from t resaved_once_after_the_pass [OF f] show ?thesis
    by (rule conjI)
qed

text \<open>
  C6. When the reviews listed hold no pending review of the caller and no load path is
  given (\<^verbatim>\<open>opt.options.load\<close> is absent or empty), \<^verbatim>\<open>main\<close> ends with an error, and all it
  has done is to ask for the caller's identity and for pages of reviews: nothing is
  deleted, posted or written. When the listing is delivered in full, the error is
  \<^verbatim>\<open>No pending review for PR {pr} and no --load option specified\<close>.
\<close>

theorem no_pending_no_load_fatal:
  assumes "getAuthenticated env = Inr auth"
    and "pending_of (user_id auth) (listed (listReviews env)) = []"
    and "truthy_str (load c) = None"
  shows "\<exists>e k. main J c env (start fs) =
            (Inl e, \<lparr>files = fs, trace = GetAuthenticated # replicate k ListReviewsPage\<rparr>)
          \<and> (listing_ok (listReviews env) \<longrightarrow>
                e = AppError (''No pending review for PR '' @ show_nat (pr c)
                               @ '' and no --load option specified'') None)"
proof (cases "findReview c env (user_id auth) (emit GetAuthenticated (start fs))")
  case (Pair res w')
  show ?thesis
  proof (cases res)
    case (Inl e)
    with Pair findReview_Inl [of c env "user_id auth" "emit GetAuthenticated (start fs)" e w']
    obtain e0 where
      s: "scan_pages (user_id auth) (listReviews env) None (emit GetAuthenticated (start fs)) = (Inl e0, w')"
      by auto
    from scan_pages_Inl [OF s] obtain k where
      w': "w' = (emit GetAuthenticated (start fs))\<lparr>trace := trace (emit GetAuthenticated (start fs))
                 @ replicate (Suc k) ListReviewsPage\<rparr>"
      by blast
    have "\<not> listing_ok (listReviews env)"
      using scan_pages_More [OF s] assms(2) by auto
    with Pair Inl w' assms(1) show ?thesis
      by (auto simp: main_def prepare_def fetchUser_def emit_def start_def
            intro: exI [of _ "Suc k"])
  next
    case (Inr rid)
    with Pair findReview_Inr [of c env "user_id auth" "emit GetAuthenticated (start fs)" rid w']
    have s: "scan_pages (user_id auth) (listReviews env) None (emit GetAuthenticated (start fs)) = (Inr rid, w')"
      by simp
    from scan_pages_Inr [OF s] assms(2) have rid: "rid = None"
      and w': "w' = (emit GetAuthenticated (start fs))\<lparr>trace := trace (emit GetAuthenticated (start fs))
                 @ replicate (length (listReviews env)) ListReviewsPage\<rparr>"
      by auto
    with Pair Inr assms(1,3) show ?thesis
      by (auto simp: main_def prepare_def fetchUser_def getComments_def emit_def start_def)
  qed
qed

theorem no_pending_no_load_fatal_witness:
  "\<exists>k. main J0 cfg0 env_none (start Map.empty) =
      (Inl (AppError ''No pending review for PR 1234 and no --load option specified'' None),
       \<lparr>files = Map.empty, trace = GetAuthenticated # replicate k ListReviewsPage\<rparr>)"
proof -
  have a: "getAuthenticated env_none = Inr me"
    by (simp add: env_none_def github_def)
  have b: "pending_of (user_id me) (listed (listReviews env_none)) = []"
    by (simp add: env_none_def github_def pending_def approved_def me_def is_pending_of_def)
  have c: "truthy_str (load cfg0) = None"
    by (simp add: cfg0_def)
  have d: "listing_ok (listReviews env_none)"
    by (simp add: env_none_def github_def pending_def approved_def)
  have e: "show_nat (pr cfg0) = ''1234''"
    by (simp add: cfg0_def show_nat.simps digit_def)
  from no_pending_no_load_fatal [OF a b c, of J0 Map.empty] d e show ?thesis
    by auto
qed

text \<open>
  C7, as stated, fails: with \<^verbatim>\<open>--load\<close> given and a pending review of the caller present,
  the run asks for the caller's identity, lists the reviews and deletes the pending review
  before it posts.
\<close>

theorem load_does_not_skip_steps:
  "truthy_str (load cfg_load) = Some ''snap.json''
   \<and> trace (snd (main J0 cfg_load env_one (start fs_snap))) =
       [GetAuthenticated, ListReviewsPage, ReadFile ''snap.json'', TimeoutNotify 555 10,
        DeletePendingReview 555, CreateComment (params cfg_load c11) (Inr 105),
        WriteFile ''org_repo_1234_555.json''
          [c10\<lparr>new_id := Some 106\<rparr>, c11\<lparr>new_id := Some 105\<rparr>]]"
  by (simp add: model_defs scenario_defs cfg_load_def fs_snap_def)

text \<open>
  C7, amended. With a truthy \<^verbatim>\<open>opt.options.load\<close> no comments are fetched from GitHub. The
  run still begins with the request for the caller's identity and the listing of the
  reviews, and an error of either is thrown by \<^verbatim>\<open>main\<close>. Every such run either stops before
  the replay, with no call of \<^verbatim>\<open>pulls.createComment\<close>, or has read the file, and what follows
  is the replay of the comments the file parses to: the calls of \<^verbatim>\<open>pulls.createComment\<close> are
  those for the file's comments with a falsy \<^verbatim>\<open>new_id\<close>, in order. When the listing,
  delivered in full, holds no pending review of the caller, nothing is deleted. When it
  holds one, with id \<open>r\<close>, the file is read first, then the countdown runs and the deletion
  of \<open>r\<close> is called; its failure is thrown, and otherwise the replay of the file's comments
  follows.
\<close>

theorem load_bypasses_fetch:
  fixes J :: "('a, 'f) json"
  assumes "truthy_str (load c) = Some l" and "main J c env (start fs) = (res, w')"
  shows "(\<forall>r. GetCommentsForReview r \<notin> set (trace w'))
       \<and> (\<exists>k tl. trace w' = GetAuthenticated # replicate k ListReviewsPage @ tl
             \<and> GetAuthenticated \<notin> set tl \<and> ListReviewsPage \<notin> set tl)
       \<and> (\<forall>e. getAuthenticated env = Inl e \<longrightarrow>
             res = Inl (AppError ''Failed to fetch user info'' (Some e)))
       \<and> (\<forall>auth e w2. getAuthenticated env = Inr auth
               \<and> findReview c env (user_id auth) (emit GetAuthenticated (start fs)) = (Inl e, w2)
             \<longrightarrow> res = Inl e)
       \<and> (\<forall>auth content cs. getAuthenticated env = Inr auth
               \<and> listing_ok (listReviews env)
               \<and> pending_of (user_id auth) (listed (listReviews env)) = []
               \<and> fs l = Some content \<and> parse J content = Some cs
             \<longrightarrow> (\<forall>r. DeletePendingReview r \<notin> set (trace w'))
                 \<and> (res, w') = replay J c env (saveFile_of c None) cs
                      \<lparr>files = fs,
                       trace = GetAuthenticated
                         # replicate (length (listReviews env)) ListReviewsPage @ [ReadFile l]\<rparr>)
       \<and> ((isl (fst (prepare J c env (start fs))) \<and> attempts (trace w') = [])
          \<or> (\<exists>content sf cs w4. fs l = Some content \<and> parse J content = Some cs
                \<and> prepare J c env (start fs) = (Inr (sf, cs), w4)
                \<and> files w4 = fs \<and> ReadFile l \<in> set (trace w4)
                \<and> (res, w') = replay J c env sf cs w4
                \<and> map fst (attempts (trace w')) = map (params c) (filter unposted cs)))
       \<and> (\<forall>auth r content cs. getAuthenticated env = Inr auth
               \<and> listing_ok (listReviews env)
               \<and> pending_of (user_id auth) (listed (listReviews env)) = [r] \<and> r \<noteq> 0
               \<and> fs l = Some content \<and> parse J content = Some cs
             \<longrightarrow> (\<exists>tl. trace w' = GetAuthenticated
                         # replicate (length (listReviews env)) ListReviewsPage
                         @ [ReadFile l, TimeoutNotify r 10, DeletePendingReview r] @ tl)
                 \<and> (\<forall>e. deletePendingReview env r = Some e \<longrightarrow>
                        res = Inl (AppError (''Failed to dismiss review '' @ show_nat r) (Some e)))
                 \<and> (deletePendingReview env r = None \<longrightarrow>
                       (res, w') = replay J c env (saveFile_of c (Some r)) cs
                         \<lparr>files = fs,
                          trace = GetAuthenticated
                            # replicate (length (listReviews env)) ListReviewsPage
                            @ [ReadFile l, TimeoutNotify r 10, DeletePendingReview r]\<rparr>))"
proof -
  obtain rp w4 where pr: "prepare J c env (start fs) = (rp, w4)"
    by (cases "prepare J c env (start fs)") auto
  from prepare_load [OF assms(1) pr] obtain k tl where
    w4: "trace w4 = GetAuthenticated # replicate k ListReviewsPage @ tl"
    and tl: "tl = [] \<or> tl = [ReadFile l]
               \<or> (\<exists>r. tl = [ReadFile l, TimeoutNotify r 10, DeletePendingReview r])"
    by (auto simp: start_def)
  have "\<exists>tl2. trace w' = trace w4 @ tl2
          \<and> (\<forall>e\<in>set tl2. is_attempt e \<or> is_write_failed e \<or> (\<exists>p x. e = WriteFile p x))"
  proof (cases rp)
    case (Inl e)
    with pr assms(2) have "trace w' = trace w4 @ []" by (auto simp: main_def)
    then show ?thesis by auto
  next
    case (Inr sc)
    obtain sf cs where sc: "sc = (sf, cs)" by (cases sc) auto
    from pr Inr sc assms(2) have "replay J c env sf cs w4 = (res, w')" by (simp add: main_def)
    from replay_shape [OF this] obtain outs cs' where
      "trace w' = trace w4 @ post_events c (filter unposted cs) outs @ [WriteFile sf (stringify J cs')]
       \<or> (\<exists>e. trace w' = trace w4 @ post_events c (filter unposted cs) outs @ [WriteFileFailed sf e])"
      by auto
    then show ?thesis
    proof
      assume "trace w' = trace w4 @ post_events c (filter unposted cs) outs
                @ [WriteFile sf (stringify J cs')]"
      then show ?thesis
        by (intro exI [of _ "post_events c (filter unposted cs) outs
                @ [WriteFile sf (stringify J cs')]"]) (auto dest: is_attempt_post_events)
    next
      assume "\<exists>e. trace w' = trace w4 @ post_events c (filter unposted cs) outs
                @ [WriteFileFailed sf e]"
      then obtain e where "trace w' = trace w4 @ post_events c (filter unposted cs) outs
                @ [WriteFileFailed sf e]" by blast
      then show ?thesis
        by (intro exI [of _ "post_events c (filter unposted cs) outs
                @ [WriteFileFailed sf e]"]) (auto dest: is_attempt_post_events)
    qed
  qed
  then obtain tl2 where tl2: "trace w' = trace w4 @ tl2"
    "\<forall>e\<in>set tl2. is_attempt e \<or> is_write_failed e \<or> (\<exists>p x. e = WriteFile p x)"
    by blast
  have t: "trace w' = GetAuthenticated # replicate k ListReviewsPage @ (tl @ tl2)"
    using w4 tl2(1) by simp
  have n1: "GetAuthenticated \<notin> set (tl @ tl2)" "ListReviewsPage \<notin> set (tl @ tl2)"
    "\<forall>r. GetCommentsForReview r \<notin> set (tl @ tl2)"
    using tl tl2(2) by auto
  have p1: "\<forall>r. GetCommentsForReview r \<notin> set (trace w')"
    using t n1(3) by auto
  have p2: "\<exists>k tl. trace w' = GetAuthenticated # replicate k ListReviewsPage @ tl
             \<and> GetAuthenticated \<notin> set tl \<and> ListReviewsPage \<notin> set tl"
    using t n1(1,2) by blast
  have p3: "\<forall>e. getAuthenticated env = Inl e \<longrightarrow>
             res = Inl (AppError ''Failed to fetch user info'' (Some e))"
    using assms(2) by (auto simp: main_def prepare_def fetchUser_def)
  have p4: "\<forall>auth e w2. getAuthenticated env = Inr auth
               \<and> findReview c env (user_id auth) (emit GetAuthenticated (start fs)) = (Inl e, w2)
             \<longrightarrow> res = Inl e"
    using assms(2) by (auto simp: main_def prepare_def fetchUser_def)
  have p5: "(\<forall>r. DeletePendingReview r \<notin> set (trace w'))
                 \<and> (res, w') = replay J c env (saveFile_of c None) cs
                      \<lparr>files = fs,
                       trace = GetAuthenticated
                         # replicate (length (listReviews env)) ListReviewsPage @ [ReadFile l]\<rparr>"
    if h: "getAuthenticated env = Inr auth" "listing_ok (listReviews env)"
      "pending_of (user_id auth) (listed (listReviews env)) = []"
      "fs l = Some content" "parse J content = Some cs"
    for auth content cs
  proof -
    from assms(1) have l: "load c = Some l" "l \<noteq> []"
      by (cases "load c"; auto split: if_splits)+
    let ?w3 = "\<lparr>files = fs, trace = GetAuthenticated
                         # replicate (length (listReviews env)) ListReviewsPage @ [ReadFile l]\<rparr>"
    from scan_pages_none [OF h(2,3), of "emit GetAuthenticated (start fs)"] h(1,4,5) l
    have "prepare J c env (start fs) = (Inr (saveFile_of c None, cs), ?w3)"
      by (simp add: prepare_def fetchUser_def findReview_def getComments_def loadComments_def
            dismissReview_def emit_def start_def)
    with assms(2) have r: "replay J c env (saveFile_of c None) cs ?w3 = (res, w')"
      by (simp add: main_def)
    from replay_shape [OF r] obtain outs cs' where
      "trace w' = trace ?w3 @ post_events c (filter unposted cs) outs
                    @ [WriteFile (saveFile_of c None) (stringify J cs')]
       \<or> (\<exists>e. trace w' = trace ?w3 @ post_events c (filter unposted cs) outs
                    @ [WriteFileFailed (saveFile_of c None) e])"
      by auto
    then have "\<forall>r. DeletePendingReview r \<notin> set (trace w')"
      by (auto dest: post_events_set)
    with r show ?thesis by simp
  qed
  have p5': "\<forall>auth content cs. getAuthenticated env = Inr auth
               \<and> listing_ok (listReviews env)
               \<and> pending_of (user_id auth) (listed (listReviews env)) = []
               \<and> fs l = Some content \<and> parse J content = Some cs
             \<longrightarrow> (\<forall>r. DeletePendingReview r \<notin> set (trace w'))
                 \<and> (res, w') = replay J c env (saveFile_of c None) cs
                      \<lparr>files = fs,
                       trace = GetAuthenticated
                         # replicate (length (listReviews env)) ListReviewsPage @ [ReadFile l]\<rparr>"
  proof (intro allI impI)
    fix auth content cs
    assume "getAuthenticated env = Inr auth
               \<and> listing_ok (listReviews env)
               \<and> pending_of (user_id auth) (listed (listReviews env)) = []
               \<and> fs l = Some content \<and> parse J content = Some cs"
    then have "getAuthenticated env = Inr auth" "listing_ok (listReviews env)"
      "pending_of (user_id auth) (listed (listReviews env)) = []"
      "fs l = Some content" "parse J content = Some cs"
      by simp_all
    then show "(\<forall>r. DeletePendingReview r \<notin> set (trace w'))
                 \<and> (res, w') = replay J c env (saveFile_of c None) cs
                      \<lparr>files = fs,
                       trace = GetAuthenticated
                         # replicate (length (listReviews env)) ListReviewsPage @ [ReadFile l]\<rparr>"
      by (rule p5)
  qed
  have p6: "(isl (fst (prepare J c env (start fs))) \<and> attempts (trace w') = [])
          \<or> (\<exists>content sf cs w4. fs l = Some content \<and> parse J content = Some cs
                \<and> prepare J c env (start fs) = (Inr (sf, cs), w4)
                \<and> files w4 = fs \<and> ReadFile l \<in> set (trace w4)
                \<and> (res, w') = replay J c env sf cs w4
                \<and> map fst (attempts (trace w')) = map (params c) (filter unposted cs))"
  proof (cases rp)
    case (Inl e)
    with pr assms(2) have "w' = w4" by (auto simp: main_def)
    with attempts_none [OF prepare_no_attempts [OF pr]] pr Inl show ?thesis by simp
  next
    case (Inr sc)
    obtain sf cs where sc: "sc = (sf, cs)" by (cases sc) auto
    with pr Inr have pr': "prepare J c env (start fs) = (Inr (sf, cs), w4)" by simp
    from prepare_load_success [OF assms(1) pr'] obtain content where
      f: "fs l = Some content" "parse J content = Some cs" "files w4 = fs"
         "ReadFile l \<in> set (trace w4)"
      by blast
    from pr' assms(2) have r: "replay J c env sf cs w4 = (res, w')" by (simp add: main_def)
    from replay_shape [OF r] obtain outs cs' where o: "length outs = length (filter unposted cs)"
      and "trace w' = trace w4 @ post_events c (filter unposted cs) outs
              @ [WriteFile sf (stringify J cs')]
       \<or> (\<exists>e. trace w' = trace w4 @ post_events c (filter unposted cs) outs
              @ [WriteFileFailed sf e])"
      by auto
    with attempts_none [OF prepare_no_attempts [OF pr]]
    have "attempts (trace w') = zip (map (params c) (filter unposted cs)) outs"
      by auto
    with o have a: "map fst (attempts (trace w')) = map (params c) (filter unposted cs)"
      by simp
    have "\<exists>content sf cs w4. fs l = Some content \<and> parse J content = Some cs
                \<and> prepare J c env (start fs) = (Inr (sf, cs), w4)
                \<and> files w4 = fs \<and> ReadFile l \<in> set (trace w4)
                \<and> (res, w') = replay J c env sf cs w4
                \<and> map fst (attempts (trace w')) = map (params c) (filter unposted cs)"
      apply (rule exI [of _ content], rule exI [of _ sf], rule exI [of _ cs], rule exI [of _ w4])
      using f pr' r a apply simp
      done
    then show ?thesis ..
  qed
  have p7: "\<forall>auth r content cs. getAuthenticated env = Inr auth
               \<and> listing_ok (listReviews env)
               \<and> pending_of (user_id auth) (listed (listReviews env)) = [r] \<and> r \<noteq> 0
               \<and> fs l = Some content \<and> parse J content = Some cs
             \<longrightarrow> (\<exists>tl. trace w' = GetAuthenticated
                         # replicate (length (listReviews env)) ListReviewsPage
                         @ [ReadFile l, TimeoutNotify r 10, DeletePendingReview r] @ tl)
                 \<and> (\<forall>e. deletePendingReview env r = Some e \<longrightarrow>
                        res = Inl (AppError (''Failed to dismiss review '' @ show_nat r) (Some e)))
                 \<and> (deletePendingReview env r = None \<longrightarrow>
                       (res, w') = replay J c env (saveFile_of c (Some r)) cs
                         \<lparr>files = fs,
                          trace = GetAuthenticated
                            # replicate (length (listReviews env)) ListReviewsPage
                            @ [ReadFile l, TimeoutNotify r 10, DeletePendingReview r]\<rparr>)"
  proof (intro allI impI)
    fix auth r content cs
    assume "getAuthenticated env = Inr auth
               \<and> listing_ok (listReviews env)
               \<and> pending_of (user_id auth) (listed (listReviews env)) = [r] \<and> r \<noteq> 0
               \<and> fs l = Some content \<and> parse J content = Some cs"
    then have h: "getAuthenticated env = Inr auth" "listing_ok (listReviews env)"
      "pending_of (user_id auth) (listed (listReviews env)) = [r]" "r \<noteq> 0"
      "fs l = Some content" "parse J content = Some cs"
      by simp_all
    from assms(1) have l: "load c = Some l" "l \<noteq> []"
      by (cases "load c"; auto split: if_splits)+
    let ?pre = "GetAuthenticated # replicate (length (listReviews env)) ListReviewsPage
                  @ [ReadFile l, TimeoutNotify r 10, DeletePendingReview r]"
    let ?w4 = "\<lparr>files = fs, trace = ?pre\<rparr>"
    note sp = scan_pages_found [OF h(2,3), of "emit GetAuthenticated (start fs)"]
    have d1: "res = Inl (AppError (''Failed to dismiss review '' @ show_nat r) (Some e))
            \<and> trace w' = ?pre @ []"
      if "deletePendingReview env r = Some e" for e
      using sp h(1,4,5,6) l that assms(2)
      by (auto simp: main_def prepare_def fetchUser_def findReview_def getComments_def
            loadComments_def dismissReview_def emit_def start_def)
    have d2: "(res, w') = replay J c env (saveFile_of c (Some r)) cs ?w4
            \<and> (\<exists>tl. trace w' = ?pre @ tl)"
      if n: "deletePendingReview env r = None"
    proof -
      from sp h(1,4,5,6) l n
      have "prepare J c env (start fs) = (Inr (saveFile_of c (Some r), cs), ?w4)"
        by (simp add: prepare_def fetchUser_def findReview_def getComments_def
              loadComments_def dismissReview_def emit_def start_def)
      with assms(2) have r: "replay J c env (saveFile_of c (Some r)) cs ?w4 = (res, w')"
        by (simp add: main_def)
      from replay_shape [OF r] obtain outs cs' where
        "trace w' = trace ?w4 @ post_events c (filter unposted cs) outs
                    @ [WriteFile (saveFile_of c (Some r)) (stringify J cs')]
         \<or> (\<exists>e. trace w' = trace ?w4 @ post_events c (filter unposted cs) outs
                    @ [WriteFileFailed (saveFile_of c (Some r)) e])"
        by auto
      then have "\<exists>tl. trace w' = ?pre @ tl" by auto
      with r show ?thesis by simp
    qed
    have t: "\<exists>tl. trace w' = ?pre @ tl"
    proof (cases "deletePendingReview env r")
      case None
      from d2 [OF None] show ?thesis ..
    next
      case (Some e)
      from d1 [OF Some] show ?thesis by blast
    qed
    have e1: "\<forall>e. deletePendingReview env r = Some e \<longrightarrow>
                        res = Inl (AppError (''Failed to dismiss review '' @ show_nat r) (Some e))"
      using d1 by blast
    have e2: "deletePendingReview env r = None \<longrightarrow>
                       (res, w') = replay J c env (saveFile_of c (Some r)) cs ?w4"
      using d2 by blast
    from t e1 e2
    show "(\<exists>tl. trace w' = GetAuthenticated
                         # replicate (length (listReviews env)) ListReviewsPage
                         @ [ReadFile l, TimeoutNotify r 10, DeletePendingReview r] @ tl)
                 \<and> (\<forall>e. deletePendingReview env r = Some e \<longrightarrow>
                        res = Inl (AppError (''Failed to dismiss review '' @ show_nat r) (Some e)))
                 \<and> (deletePendingReview env r = None \<longrightarrow>
                       (res, w') = replay J c env (saveFile_of c (Some r)) cs
                         \<lparr>files = fs,
                          trace = GetAuthenticated
                            # replicate (length (listReviews env)) ListReviewsPage
                            @ [ReadFile l, TimeoutNotify r 10, DeletePendingReview r]\<rparr>)"
      by simp
  qed
  show ?thesis
    using p1 p2 p3 p4 p5' p6 p7 by (intro conjI) assumption+
qed

theorem load_bypasses_fetch_witness:
  "truthy_str (load cfg_load) = Some ''snap.json''
   \<and> getAuthenticated env_none = Inr me
   \<and> listing_ok (listReviews env_none)
   \<and> pending_of (user_id me) (listed (listReviews env_none)) = []
   \<and> fs_snap ''snap.json'' = Some [c10\<lparr>new_id := Some 106\<rparr>, c11]
   \<and> parse J0 [c10\<lparr>new_id := Some 106\<rparr>, c11] = Some [c10\<lparr>new_id := Some 106\<rparr>, c11]
   \<and> (\<forall>r. DeletePendingReview r \<notin> set (trace (snd (main J0 cfg_load env_none (start fs_snap)))))
   \<and> (\<forall>r. GetCommentsForReview r \<notin> set (trace (snd (main J0 cfg_load env_none (start fs_snap)))))
   \<and> trace (snd (main J0 cfg_load env_none (start fs_snap))) =
       [GetAuthenticated, ListReviewsPage, ReadFile ''snap.json'',
        CreateComment (params cfg_load c11) (Inr 103),
        WriteFile ''snap.json'' [c10\<lparr>new_id := Some 106\<rparr>, c11\<lparr>new_id := Some 103\<rparr>]]
   \<and> getAuthenticated env_one = Inr me
   \<and> listing_ok (listReviews env_one)
   \<and> pending_of (user_id me) (listed (listReviews env_one)) = [555]
   \<and> deletePendingReview env_one 555 = None
   \<and> \<not> isl (fst (prepare J0 cfg_load env_one (start fs_snap)))
   \<and> map fst (attempts (trace (snd (main J0 cfg_load env_one (start fs_snap)))))
       = map (params cfg_load) (filter unposted [c10\<lparr>new_id := Some 106\<rparr>, c11])
   \<and> filter unposted [c10\<lparr>new_id := Some 106\<rparr>, c11] = [c11]
   \<and> (fst (main J0 cfg_load env_one (start fs_snap)), snd (main J0 cfg_load env_one (start fs_snap)))
       = replay J0 cfg_load env_one (saveFile_of cfg_load (Some 555))
           [c10\<lparr>new_id := Some 106\<rparr>, c11]
           \<lparr>files = fs_snap,
            trace = GetAuthenticated # replicate (length (listReviews env_one)) ListReviewsPage
                      @ [ReadFile ''snap.json'', TimeoutNotify 555 10, DeletePendingReview 555]\<rparr>"
proof -
  let ?m = "main J0 cfg_load env_none (start fs_snap)"
  let ?m2 = "main J0 cfg_load env_one (start fs_snap)"
  let ?cs = "[c10\<lparr>new_id := Some 106\<rparr>, c11]"
  have a: "truthy_str (load cfg_load) = Some ''snap.json''"
    by (simp add: cfg_load_def cfg0_def)
  have b: "?m = (fst ?m, snd ?m)" and b2: "?m2 = (fst ?m2, snd ?m2)"
    by simp_all
  have c: "getAuthenticated env_none = Inr me" and c2: "getAuthenticated env_one = Inr me"
    by (simp_all add: scenario_defs)
  have d: "listing_ok (listReviews env_none)" and d2: "listing_ok (listReviews env_one)"
    by (simp_all add: scenario_defs)
  have e: "pending_of (user_id me) (listed (listReviews env_none)) = []"
    by (simp add: scenario_defs is_pending_of_def)
  have e2: "pending_of (user_id me) (listed (listReviews env_one)) = [555]"
    by (simp add: scenario_defs is_pending_of_def)
  have z: "(555::nat) \<noteq> 0"
    by simp
  have f: "fs_snap ''snap.json'' = Some ?cs"
    by (simp add: fs_snap_def)
  have g: "parse J0 ?cs = Some ?cs"
    by (simp add: J0_def)
  have n: "deletePendingReview env_one 555 = None"
    by (simp add: scenario_defs)
  have t: "trace (snd ?m) =
       [GetAuthenticated, ListReviewsPage, ReadFile ''snap.json'',
        CreateComment (params cfg_load c11) (Inr 103),
        WriteFile ''snap.json'' [c10\<lparr>new_id := Some 106\<rparr>, c11\<lparr>new_id := Some 103\<rparr>]]"
    by (simp add: model_defs scenario_defs cfg_load_def fs_snap_def)
  have np: "\<not> isl (fst (prepare J0 cfg_load env_one (start fs_snap)))"
    by (simp add: model_defs scenario_defs cfg_load_def fs_snap_def)
  have u: "filter unposted ?cs = [c11]"
    by (simp add: unposted_def c10_def c11_def)
  note th = load_bypasses_fetch [OF a b]
  note th2 = load_bypasses_fetch [OF a b2]
  from th have h: "\<forall>r. GetCommentsForReview r \<notin> set (trace (snd ?m))"
    by (rule conjunct1)
  from th have "\<forall>auth content cs. getAuthenticated env_none = Inr auth
               \<and> listing_ok (listReviews env_none)
               \<and> pending_of (user_id auth) (listed (listReviews env_none)) = []
               \<and> fs_snap ''snap.json'' = Some content \<and> parse J0 content = Some cs
             \<longrightarrow> (\<forall>r. DeletePendingReview r \<notin> set (trace (snd ?m)))
                 \<and> (fst ?m, snd ?m) = replay J0 cfg_load env_none (saveFile_of cfg_load None) cs
                      \<lparr>files = fs_snap,
                       trace = GetAuthenticated
                         # replicate (length (listReviews env_none)) ListReviewsPage
                         @ [ReadFile ''snap.json'']\<rparr>"
    by (elim conjE)
  from this [rule_format, OF conjI [OF c conjI [OF d conjI [OF e conjI [OF f g]]]]]
  have i: "\<forall>r. DeletePendingReview r \<notin> set (trace (snd ?m))"
    by (rule conjunct1)
  from th2 have "(isl (fst (prepare J0 cfg_load env_one (start fs_snap)))
            \<and> attempts (trace (snd ?m2)) = [])
          \<or> (\<exists>content sf cs w4. fs_snap ''snap.json'' = Some content \<and> parse J0 content = Some cs
                \<and> prepare J0 cfg_load env_one (start fs_snap) = (Inr (sf, cs), w4)
                \<and> files w4 = fs_snap \<and> ReadFile ''snap.json'' \<in> set (trace w4)
                \<and> (fst ?m2, snd ?m2) = replay J0 cfg_load env_one sf cs w4
                \<and> map fst (attempts (trace (snd ?m2))) = map (params cfg_load) (filter unposted cs))"
    by (elim conjE)
  with np obtain content cs where "fs_snap ''snap.json'' = Some content"
    "parse J0 content = Some cs"
    "map fst (attempts (trace (snd ?m2))) = map (params cfg_load) (filter unposted cs)"
    by blast
  with f g have j: "map fst (attempts (trace (snd ?m2))) = map (params cfg_load) (filter unposted ?cs)"
    by simp
  from th2 have "\<forall>auth r content cs. getAuthenticated env_one = Inr auth
               \<and> listing_ok (listReviews env_one)
               \<and> pending_of (user_id auth) (listed (listReviews env_one)) = [r] \<and> r \<noteq> 0
               \<and> fs_snap ''snap.json'' = Some content \<and> parse J0 content = Some cs
             \<longrightarrow> (\<exists>tl. trace (snd ?m2) = GetAuthenticated
                         # replicate (length (listReviews env_one)) ListReviewsPage
                         @ [ReadFile ''snap.json'', TimeoutNotify r 10, DeletePendingReview r] @ tl)
                 \<and> (\<forall>e. deletePendingReview env_one r = Some e \<longrightarrow>
                        fst ?m2 = Inl (AppError (''Failed to dismiss review '' @ show_nat r) (Some e)))
                 \<and> (deletePendingReview env_one r = None \<longrightarrow>
                       (fst ?m2, snd ?m2) = replay J0 cfg_load env_one (saveFile_of cfg_load (Some r)) cs
                         \<lparr>files = fs_snap,
                          trace = GetAuthenticated
                            # replicate (length (listReviews env_one)) ListReviewsPage
                            @ [ReadFile ''snap.json'', TimeoutNotify r 10,
                               DeletePendingReview r]\<rparr>)"
    by (elim conjE)
  from this [rule_format, OF conjI [OF c2 conjI [OF d2 conjI [OF e2 conjI [OF z conjI [OF f g]]]]]] n
  have k: "(fst ?m2, snd ?m2) = replay J0 cfg_load env_one (saveFile_of cfg_load (Some 555)) ?cs
           \<lparr>files = fs_snap,
            trace = GetAuthenticated # replicate (length (listReviews env_one)) ListReviewsPage
                      @ [ReadFile ''snap.json'', TimeoutNotify 555 10, DeletePendingReview 555]\<rparr>"
    by blast
  from a c d e f g i h t c2 d2 e2 n np j u k show ?thesis
    by (intro conjI)
qed

text \<open>
  C8. The loop changes no field of a comment but \<^verbatim>\<open>new_id\<close>: its result and its argument are
  equal once \<^verbatim>\<open>new_id\<close> is erased in both, fields of the extension included. In a run
  without \<^verbatim>\<open>--load\<close> that reaches the replay, the comments are the list GitHub delivered, the
  snapshot file holds \<^verbatim>\<open>JSON.stringify\<close> of that list, and parsing the file gives the list
  back, given that \<^verbatim>\<open>JSON.parse\<close> inverts \<^verbatim>\<open>JSON.stringify\<close>. The file a completed run leaves
  parses to a list that differs from the fetched one in \<^verbatim>\<open>new_id\<close> only.
\<close>

theorem comments_preserved:
  fixes J :: "('a, 'f) json"
  assumes "\<forall>xs. parse J (stringify J xs) = Some xs"
    and "load c = None"
    and "prepare J c env (start fs) = (Inr (sf, cs), w4)"
    and "main J c env (start fs) = (res, w')"
  shows "(\<exists>r got. getCommentsForReview env r = Inr got
            \<and> cs = (case got of Some xs \<Rightarrow> xs | None \<Rightarrow> []))
       \<and> (\<exists>content. files w4 sf = Some content \<and> content = stringify J cs
              \<and> parse J content = Some cs)
       \<and> (\<forall>(cs0 :: 'a comment_scheme list) (w0 :: 'f world).
              map (new_id_update (\<lambda>v. None)) (fst (postComments c env cs0 w0))
                = map (new_id_update (\<lambda>v. None)) cs0)
       \<and> (res = Inr () \<longrightarrow>
            (\<exists>cs'. files w' sf = Some (stringify J cs') \<and> parse J (stringify J cs') = Some cs'
               \<and> map (new_id_update (\<lambda>v. None)) cs' = map (new_id_update (\<lambda>v. None)) cs))"
proof -
  from prepare_fetch [OF assms(2,3)] obtain r got where
    g: "getCommentsForReview env r = Inr got"
       "cs = (case got of Some xs \<Rightarrow> xs | None \<Rightarrow> [])"
       "sf = saveFile_of c (Some r)"
       "files w4 = (files (start fs))(sf \<mapsto> stringify J cs)"
    by auto
  have frame: "map (new_id_update (\<lambda>v. None)) (fst (postComments c env cs0 w0))
                = map (new_id_update (\<lambda>v. None)) cs0"
    for cs0 :: "'a comment_scheme list" and w0 :: "'f world"
  proof (cases "postComments c env cs0 w0")
    case (Pair cs1 w1)
    from postComments_effect [OF Pair] Pair show ?thesis by auto
  qed
  from assms(3,4) have rp: "replay J c env sf cs w4 = (res, w')"
    by (simp add: main_def)
  from replay_shape [OF rp] obtain outs cs' w5 where
    pc: "postComments c env cs w4 = (cs', w5)"
    and fin: "(res = Inr () \<and> writeFile env (trace w5) sf = None
                 \<and> w' = w4\<lparr>files := (files w4)(sf \<mapsto> stringify J cs'),
                          trace := trace w5 @ [WriteFile sf (stringify J cs')]\<rparr>)
              \<or> (\<exists>e. res = Inl (AppError ''Failed to save comments into a file'' (Some e))
                    \<and> w' = w4\<lparr>trace := trace w5 @ [WriteFileFailed sf e]\<rparr>)"
    by blast
  from frame [of cs w4] pc
  have fr: "map (new_id_update (\<lambda>v. None)) cs' = map (new_id_update (\<lambda>v. None)) cs"
    by simp
  have last: "res = Inr () \<longrightarrow>
            (\<exists>cs'. files w' sf = Some (stringify J cs') \<and> parse J (stringify J cs') = Some cs'
               \<and> map (new_id_update (\<lambda>v. None)) cs' = map (new_id_update (\<lambda>v. None)) cs)"
  proof
    assume "res = Inr ()"
    with fin have "files w' sf = Some (stringify J cs')" by auto
    with fr assms(1) show "\<exists>cs'. files w' sf = Some (stringify J cs')
               \<and> parse J (stringify J cs') = Some cs'
               \<and> map (new_id_update (\<lambda>v. None)) cs' = map (new_id_update (\<lambda>v. None)) cs"
      by (intro exI [of _ cs']) simp
  qed
  from g assms(1) have snap: "\<exists>content. files w4 sf = Some content \<and> content = stringify J cs
              \<and> parse J content = Some cs"
    by simp
  from g(1,2) have got: "\<exists>r got. getCommentsForReview env r = Inr got
            \<and> cs = (case got of Some xs \<Rightarrow> xs | None \<Rightarrow> [])"
    by blast
  from got snap frame last show ?thesis
    by (intro conjI allI)
qed


theorem comments_preserved_witness:
  "(\<forall>xs. parse J0 (stringify J0 xs) = Some xs)
   \<and> load cfg0 = None
   \<and> fst (prepare J0 cfg0 env_one (start Map.empty)) = Inr (''org_repo_1234_555.json'', [c10, c11])
   \<and> fst (main J0 cfg0 env_one (start Map.empty)) = Inr ()
   \<and> (\<exists>content. files (snd (prepare J0 cfg0 env_one (start Map.empty)))
                    ''org_repo_1234_555.json'' = Some content
         \<and> content = stringify J0 [c10, c11] \<and> parse J0 content = Some [c10, c11])
   \<and> (\<exists>cs'. files (snd (main J0 cfg0 env_one (start Map.empty))) ''org_repo_1234_555.json''
              = Some (stringify J0 cs')
         \<and> parse J0 (stringify J0 cs') = Some cs'
         \<and> map (new_id_update (\<lambda>v. None)) cs' = map (new_id_update (\<lambda>v. None)) [c10, c11])"
proof -
  let ?p = "prepare J0 cfg0 env_one (start Map.empty)"
  let ?m = "main J0 cfg0 env_one (start Map.empty)"
  have a: "\<forall>xs. parse J0 (stringify J0 xs) = Some xs"
    by (simp add: J0_def)
  have b: "load cfg0 = None"
    by (simp add: cfg0_def)
  have c: "fst ?p = Inr (''org_repo_1234_555.json'', [c10, c11])"
    by (simp add: model_defs scenario_defs)
  then have d: "?p = (Inr (''org_repo_1234_555.json'', [c10, c11]), snd ?p)"
    by (metis prod.collapse)
  have e: "?m = (fst ?m, snd ?m)"
    by simp
  have f: "fst ?m = Inr ()"
    by (simp add: model_defs scenario_defs)
  note th = comments_preserved [OF a b d e]
  from th have g: "\<exists>content. files (snd ?p) ''org_repo_1234_555.json'' = Some content
         \<and> content = stringify J0 [c10, c11] \<and> parse J0 content = Some [c10, c11]"
    by (elim conjE)
  from th f have h: "\<exists>cs'. files (snd ?m) ''org_repo_1234_555.json'' = Some (stringify J0 cs')
         \<and> parse J0 (stringify J0 cs') = Some cs'
         \<and> map (new_id_update (\<lambda>v. None)) cs' = map (new_id_update (\<lambda>v. None)) [c10, c11]"
    by (elim conjE impE) assumption+
  from a b c f g h show ?thesis
    by (intro conjI)
qed

text \<open>
  C9. When no save path is given (\<^verbatim>\<open>opt.options.save\<close> is absent or empty) and the listing,
  delivered in full, holds exactly one pending review of the caller, with id \<open>R\<close> (an id of
  GitHub, so not 0), every write of the run, successful or failed, goes to
  \<^verbatim>\<open>{org}_{repo}_{pr}_{R}.json\<close>, and a run that completes leaves that file written. The
  path depends on the options and on \<open>R\<close> alone.
\<close>

theorem snapshot_path_derived:
  assumes "truthy_str (save c) = None"
    and "getAuthenticated env = Inr auth"
    and "listing_ok (listReviews env)"
    and "pending_of (user_id auth) (listed (listReviews env)) = [R]"
    and "R \<noteq> 0"
    and "main J c env (start fs) = (res, w')"
  shows "(\<forall>p x. WriteFile p x \<in> set (trace w') \<longrightarrow>
            p = org c @ ''_'' @ repo c @ ''_'' @ show_nat (pr c) @ ''_'' @ show_nat R @ ''.json'')
       \<and> (\<forall>p e. WriteFileFailed p e \<in> set (trace w') \<longrightarrow>
            p = org c @ ''_'' @ repo c @ ''_'' @ show_nat (pr c) @ ''_'' @ show_nat R @ ''.json'')
       \<and> (res = Inr () \<longrightarrow>
            (\<exists>x. files w' (org c @ ''_'' @ repo c @ ''_'' @ show_nat (pr c) @ ''_''
                             @ show_nat R @ ''.json'') = Some x
               \<and> last (trace w') =
                   WriteFile (org c @ ''_'' @ repo c @ ''_'' @ show_nat (pr c) @ ''_''
                                @ show_nat R @ ''.json'') x))"
proof -
  from scan_pages_found [OF assms(3,4), of "emit GetAuthenticated (start fs)"]
  have "findReview c env (user_id auth) (emit GetAuthenticated (start fs)) =
          (Inr (Some R), (emit GetAuthenticated (start fs))\<lparr>trace :=
              trace (emit GetAuthenticated (start fs))
                @ replicate (length (listReviews env)) ListReviewsPage\<rparr>)"
    by (simp add: findReview_def)
  from main_paths [OF assms(2) this assms(6)] assms(1,5) show ?thesis
    by (simp add: saveFile_of_def)
qed


theorem snapshot_path_derived_witness:
  "truthy_str (save cfg0) = None
   \<and> pending_of (user_id me) (listed (listReviews env_one)) = [555]
   \<and> fst (main J0 cfg0 env_one (start Map.empty)) = Inr ()
   \<and> (\<exists>x. files (snd (main J0 cfg0 env_one (start Map.empty))) ''org_repo_1234_555.json'' = Some x
         \<and> last (trace (snd (main J0 cfg0 env_one (start Map.empty))))
             = WriteFile ''org_repo_1234_555.json'' x)"
proof -
  let ?m = "main J0 cfg0 env_one (start Map.empty)"
  have a: "truthy_str (save cfg0) = None"
    by (simp add: cfg0_def)
  have b: "getAuthenticated env_one = Inr me"
    by (simp add: scenario_defs)
  have c: "listing_ok (listReviews env_one)"
    by (simp add: scenario_defs)
  have d: "pending_of (user_id me) (listed (listReviews env_one)) = [555]"
    by (simp add: scenario_defs is_pending_of_def)
  have e: "(555::nat) \<noteq> 0"
    by simp
  have f: "?m = (fst ?m, snd ?m)"
    by simp
  have g: "fst ?m = Inr ()"
    by (simp add: model_defs scenario_defs)
  have h: "org cfg0 @ ''_'' @ repo cfg0 @ ''_'' @ show_nat (pr cfg0) @ ''_'' @ show_nat 555
             @ ''.json'' = ''org_repo_1234_555.json''"
    by (simp add: cfg0_def show_nat.simps digit_def)
  from snapshot_path_derived [OF a b c d e f, unfolded h] g
  have "\<exists>x. files (snd ?m) ''org_repo_1234_555.json'' = Some x
         \<and> last (trace (snd ?m)) = WriteFile ''org_repo_1234_555.json'' x"
    by simp
  with a d g show ?thesis by simp
qed

text \<open>
  C10. When the listing is delivered in full and holds two or more pending reviews of the
  caller, the error \<^verbatim>\<open>More than one pending review?\<close> is thrown inside the \<^verbatim>\<open>try\<close> block of
  the listing, so \<^verbatim>\<open>main\<close> throws \<^verbatim>\<open>Failed to fetch list of reviews for PR {pr}\<close> with the
  ambiguity error as its \<^verbatim>\<open>extra\<close>; \<^verbatim>\<open>run\<close> prints that message and the cause, not the help,
  and exits with 1.
\<close>

theorem ambiguity_is_wrapped:
  assumes "getAuthenticated env = Inr auth"
    and "listing_ok (listReviews env)"
    and "2 \<le> length (pending_of (user_id auth) (listed (listReviews env)))"
  shows "fst (main J c env w) =
           Inl (AppError (''Failed to fetch list of reviews for PR '' @ show_nat (pr c))
                  (Some (AppError ''More than one pending review?'' None)))
         \<and> fst (run J c env w) = 1
         \<and> (\<exists>k. trace (snd (run J c env w)) =
                trace w @ GetAuthenticated # replicate (Suc k) ListReviewsPage
                  @ [ConsoleError (''Error: Failed to fetch list of reviews for PR ''
                                     @ show_nat (pr c)),
                     ConsoleErrorValue (AppError ''More than one pending review?'' None)])"
proof -
  from two_pending_no_review [OF assms(3), of c "emit GetAuthenticated w"] assms(2)
  obtain k where "findReview c env (user_id auth) (emit GetAuthenticated w) =
      (Inl (AppError (''Failed to fetch list of reviews for PR '' @ show_nat (pr c))
              (Some (AppError ''More than one pending review?'' None))),
       (emit GetAuthenticated w)\<lparr>trace := trace (emit GetAuthenticated w)
            @ replicate (Suc k) ListReviewsPage\<rparr>)"
    by auto
  with assms(1) show ?thesis
    by (simp add: main_def prepare_def run_def fetchUser_def report_def emit_def)
qed

theorem ambiguity_is_wrapped_witness:
  "fst (main J0 cfg0 env_two (start Map.empty)) =
     Inl (AppError ''Failed to fetch list of reviews for PR 1234''
            (Some (AppError ''More than one pending review?'' None)))
   \<and> fst (run J0 cfg0 env_two (start Map.empty)) = 1"
proof -
  have a: "getAuthenticated env_two = Inr me"
    by (simp add: env_two_def github_def)
  have b: "listing_ok (listReviews env_two)"
    by (simp add: env_two_def github_def pending_def approved_def)
  have c: "2 \<le> length (pending_of (user_id me) (listed (listReviews env_two)))"
    by (simp add: env_two_def github_def pending_def approved_def me_def is_pending_of_def)
  have d: "show_nat (pr cfg0) = ''1234''"
    by (simp add: cfg0_def show_nat.simps digit_def)
  from ambiguity_is_wrapped [OF a b c, of J0 cfg0 "start Map.empty"] d show ?thesis
    by simp
qed

end
